theory Spec2Isabelle
  imports Main
begin

section \<open>Cell values and strings\<close>

text \<open>
  A spreadsheet cell read with \<^verbatim>\<open>getValues()\<close> is a JavaScript value. The model keeps
  strings, integer-valued numbers, booleans, \<^verbatim>\<open>null\<close> (used by the code to fill the
  rows it writes) and \<^verbatim>\<open>undefined\<close> (what reading a column beyond the end of a row
  gives). Fractional numbers and date cells are outside the model. A number cell \<open>Num n\<close>
  stands for the number with the integer value \<open>n\<close>; the model prints and reads numbers
  as JavaScript does for the integers that a double holds exactly and \<^verbatim>\<open>String\<close> prints in
  full, those of magnitude up to \<open>2 ^ 53 - 1\<close> (\<open>safeInteger\<close> below), and the theorems
  that state the value or the text of a number assume this range. Strings are lists of
  characters with the codes 0 to 255 (Latin-1); strings with other characters are outside
  the model. White space and letter case are those of JavaScript on these characters.
\<close>

datatype cell = Str string | Num int | Bool bool | Null | Undefined

text \<open>\<^verbatim>\<open>row[i]\<close>: an index beyond the end of a JavaScript array reads \<^verbatim>\<open>undefined\<close>.\<close>

definition at :: "cell list \<Rightarrow> nat \<Rightarrow> cell" where
  "at row i = (if i < length row then row ! i else Undefined)"

definition digit_char :: "nat \<Rightarrow> char" where
  "digit_char d = char_of (48 + d)"

fun show_nat :: "nat \<Rightarrow> string" where
  "show_nat n = (if n < 10 then [digit_char n] else show_nat (n div 10) @ [digit_char (n mod 10)])"

declare show_nat.simps [simp del]

definition show_int :: "int \<Rightarrow> string" where
  "show_int i = (if i < 0 then CHR ''-'' # show_nat (nat (- i)) else show_nat (nat i))"

text \<open>
  \<^verbatim>\<open>String(v)\<close> and the substitutions of a template literal. \<open>printable\<close> holds of
  the cells that \<^verbatim>\<open>String\<close> prints as the model does.
\<close>

definition safeInteger :: "int \<Rightarrow> bool" where
  "safeInteger n = (\<bar>n\<bar> \<le> 9007199254740991)"

fun String :: "cell \<Rightarrow> string" where
  "String (Str s) = s"
| "String (Num n) = show_int n"
| "String (Bool b) = (if b then ''true'' else ''false'')"
| "String Null = ''null''"
| "String Undefined = ''undefined''"

definition printable :: "cell \<Rightarrow> bool" where
  "printable c = (case c of Num n \<Rightarrow> safeInteger n | _ \<Rightarrow> True)"

text \<open>The truthiness test of \<^verbatim>\<open>v && ...\<close>.\<close>

fun truthy :: "cell \<Rightarrow> bool" where
  "truthy (Str s) = (s \<noteq> [])"
| "truthy (Num n) = (n \<noteq> 0)"
| "truthy (Bool b) = b"
| "truthy Null = False"
| "truthy Undefined = False"

text \<open>
  The characters that \<^verbatim>\<open>trim\<close> and \<^verbatim>\<open>parseInt\<close> strip: tab, line feed, vertical
  tab, form feed, carriage return, space and the no-break space.
\<close>

definition isWhiteSpace :: "char \<Rightarrow> bool" where
  "isWhiteSpace c = (let n = (of_char c :: nat) in (9 \<le> n \<and> n \<le> 13) \<or> n = 32 \<or> n = 160)"

definition trimStart :: "string \<Rightarrow> string" where
  "trimStart s = dropWhile isWhiteSpace s"

definition trim :: "string \<Rightarrow> string" where
  "trim s = rev (dropWhile isWhiteSpace (rev (dropWhile isWhiteSpace s)))"

text \<open>
  \<^verbatim>\<open>toLowerCase\<close>: the capital letters A to Z, and the capital letters with the codes 192
  to 222 (without the multiplication sign, 215), go to the letter 32 codes higher.
\<close>

definition toLowerChar :: "char \<Rightarrow> char" where
  "toLowerChar c =
     (let n = (of_char c :: nat)
      in if (65 \<le> n \<and> n \<le> 90) \<or> (192 \<le> n \<and> n \<le> 222 \<and> n \<noteq> 215) then char_of (n + 32) else c)"

definition toLowerCase :: "string \<Rightarrow> string" where
  "toLowerCase s = map toLowerChar s"

section \<open>The score of an activity level\<close>

text \<open>
  The \<^verbatim>\<open>switch\<close> of \<^verbatim>\<open>updateActivityLevels\<close> on the trimmed, lower-cased level
  (source lines 324 to 344). \<open>None\<close> is the \<^verbatim>\<open>default\<close> branch, which leaves the score
  unassigned and continues with the next row.
\<close>

definition TARGET_SUM_ACTIVE_MIN :: int where "TARGET_SUM_ACTIVE_MIN = 3"
definition TARGET_SUM_ACTIVE_MAX :: int where "TARGET_SUM_ACTIVE_MAX = 11"
definition CORE_K_MIN_VALUE :: int where "CORE_K_MIN_VALUE = 12"

definition activeScore :: "int \<Rightarrow> int \<Rightarrow> int" where
  "activeScore current_E_val current_K_val =
     (let points_to_add_active = 3;
          tentative_K_active = current_K_val + points_to_add_active;
          target_sum_active = current_E_val + tentative_K_active;
          target_sum_active = max TARGET_SUM_ACTIVE_MIN target_sum_active;
          target_sum_active = min TARGET_SUM_ACTIVE_MAX target_sum_active;
          newCalculatedScoreK = target_sum_active - current_E_val
      in max 0 newCalculatedScoreK)"

definition newCalculatedScoreK :: "string \<Rightarrow> int \<Rightarrow> int \<Rightarrow> int option" where
  "newCalculatedScoreK uatActivityLevelTrimmed current_E_val current_K_val =
     (if uatActivityLevelTrimmed = ''inactive'' then Some 1
      else if uatActivityLevelTrimmed = ''active'' then Some (activeScore current_E_val current_K_val)
      else if uatActivityLevelTrimmed = ''core'' then Some CORE_K_MIN_VALUE
      else None)"

section \<open>Reading integers from cells\<close>

text \<open>
  \<^verbatim>\<open>parseInt(v, 10)\<close>: the value is converted to a string, leading white space is
  skipped, one sign is accepted, and the longest run of decimal digits that follows is read.
  Without such a digit the result is \<^verbatim>\<open>NaN\<close>, here \<open>None\<close>. What follows the digits
  is ignored. Numbers are unbounded integers here; JavaScript rounds the value of the digits
  to a double, which changes nothing as long as it is a safe integer. \<open>readable\<close> holds of
  the cells from which the model reads the number that JavaScript reads.
\<close>

definition isDigit :: "char \<Rightarrow> bool" where
  "isDigit c = (let n = (of_char c :: nat) in 48 \<le> n \<and> n \<le> 57)"

definition digitVal :: "char \<Rightarrow> nat" where
  "digitVal c = of_char c - 48"

definition digitsValue :: "string \<Rightarrow> nat" where
  "digitsValue Z = foldl (\<lambda>a c. 10 * a + digitVal c) 0 Z"

definition parseInt10 :: "string \<Rightarrow> int option" where
  "parseInt10 inputString =
     (let S = trimStart inputString;
          sign = (if S \<noteq> [] \<and> hd S = CHR ''-'' then - 1 else 1 :: int);
          S = (if S \<noteq> [] \<and> (hd S = CHR ''+'' \<or> hd S = CHR ''-'') then tl S else S);
          Z = takeWhile isDigit S
      in if Z = [] then None else Some (sign * int (digitsValue Z)))"

text \<open>\<^verbatim>\<open>x || 0\<close> on the result of \<^verbatim>\<open>parseInt\<close>: \<^verbatim>\<open>NaN\<close> and 0 are falsy.\<close>

definition orZero :: "int option \<Rightarrow> int" where
  "orZero v = (case v of None \<Rightarrow> 0 | Some n \<Rightarrow> n)"

definition intOrZero :: "cell \<Rightarrow> int" where
  "intOrZero c = orZero (parseInt10 (String c))"

definition readable :: "cell \<Rightarrow> bool" where
  "readable c =
     (printable c \<and> (case parseInt10 (String c) of None \<Rightarrow> True | Some v \<Rightarrow> safeInteger v))"

text \<open>
  A row, or a sheet, in the range of the model: every number in it, and every number read
  from a text in it, is a safe integer.
\<close>

definition rowInRange :: "cell list \<Rightarrow> bool" where
  "rowInRange row = list_all readable row"

definition sheetInRange :: "cell list list \<Rightarrow> bool" where
  "sheetInRange rows = list_all rowInRange rows"

section \<open>The current statistics of a person\<close>

text \<open>Column numbers are 1-based, as in the source; arrays are read at the number minus 1.\<close>

definition STATS_COL_PERSON_ID :: nat where "STATS_COL_PERSON_ID = 1"
definition STATS_COL_FIRST_NAME :: nat where "STATS_COL_FIRST_NAME = 3"
definition STATS_COL_LAST_NAME :: nat where "STATS_COL_LAST_NAME = 4"
definition STATS_COL_QUARTER_EVENTS :: nat where "STATS_COL_QUARTER_EVENTS = 5"
definition STATS_COL_ACTIVITY_SCORE :: nat where "STATS_COL_ACTIVITY_SCORE = 12"

definition UAT_COL_ID :: nat where "UAT_COL_ID = 1"
definition UAT_COL_FULL_NAME :: nat where "UAT_COL_FULL_NAME = 2"
definition UAT_COL_LAST_NAME :: nat where "UAT_COL_LAST_NAME = 3"
definition UAT_COL_FIRST_NAME :: nat where "UAT_COL_FIRST_NAME = 4"
definition UAT_COL_ACTIVITY_LEVEL :: nat where "UAT_COL_ACTIVITY_LEVEL = 5"

text \<open>The condition of the inner loop over \<^verbatim>\<open>statsData\<close> (source lines 312 to 314).\<close>

definition rowMatches :: "cell list \<Rightarrow> cell \<Rightarrow> cell \<Rightarrow> cell \<Rightarrow> bool" where
  "rowMatches statsRow personIdUAT firstNameUAT lastNameUAT =
     (trim (String (at statsRow (STATS_COL_PERSON_ID - 1))) = trim (String personIdUAT) \<and>
      toLowerCase (trim (String (at statsRow (STATS_COL_FIRST_NAME - 1))))
        = toLowerCase (trim (String firstNameUAT)) \<and>
      toLowerCase (trim (String (at statsRow (STATS_COL_LAST_NAME - 1))))
        = toLowerCase (trim (String lastNameUAT)))"

text \<open>
  The inner loop (source lines 308 to 320): both values start at 0, the first matching row
  sets them and ends the loop.
\<close>

fun currentStats :: "cell list list \<Rightarrow> cell \<Rightarrow> cell \<Rightarrow> cell \<Rightarrow> int \<times> int" where
  "currentStats [] personIdUAT firstNameUAT lastNameUAT = (0, 0)"
| "currentStats (statsRow # rest) personIdUAT firstNameUAT lastNameUAT =
     (if rowMatches statsRow personIdUAT firstNameUAT lastNameUAT
      then (intOrZero (at statsRow (STATS_COL_QUARTER_EVENTS - 1)),
            intOrZero (at statsRow (STATS_COL_ACTIVITY_SCORE - 1)))
      else currentStats rest personIdUAT firstNameUAT lastNameUAT)"

text \<open>The test \<^verbatim>\<open>v && String(v).trim() !== ""\<close>.\<close>

definition hasText :: "cell \<Rightarrow> bool" where
  "hasText v = (truthy v \<and> trim (String v) \<noteq> [])"

text \<open>
  The statistics lookup followed by the \<^verbatim>\<open>switch\<close>, for one tracker row (source lines
  308 to 344).
\<close>

definition scoreFor :: "cell list list \<Rightarrow> cell list \<Rightarrow> int option" where
  "scoreFor statsData uatRow =
     (let personIdUAT = at uatRow (UAT_COL_ID - 1);
          lastNameUAT = at uatRow (UAT_COL_LAST_NAME - 1);
          firstNameUAT = at uatRow (UAT_COL_FIRST_NAME - 1);
          activityLevelUAT = at uatRow (UAT_COL_ACTIVITY_LEVEL - 1);
          (current_E_val, current_K_val) =
             currentStats statsData personIdUAT firstNameUAT lastNameUAT;
          uatActivityLevelTrimmed = toLowerCase (trim (String activityLevelUAT))
      in newCalculatedScoreK uatActivityLevelTrimmed current_E_val current_K_val)"

section \<open>Dates\<close>

text \<open>
  A \<^verbatim>\<open>Date\<close> is its time value in milliseconds, read in the script's local time with a
  fixed offset (taken as 0, so that local time and the time value coincide; daylight-saving
  shifts are outside the model). The range limit of time values is not modelled. The
  functions below are the abstract operations of the ECMAScript specification on which
  \<^verbatim>\<open>getFullYear\<close>, \<^verbatim>\<open>getMonth\<close>, \<^verbatim>\<open>getDate\<close>, \<^verbatim>\<open>setDate\<close> and the constructor
  \<^verbatim>\<open>new Date(year, month, date)\<close> are defined. Months are numbered from 0.
\<close>

type_synonym jsdate = int

definition msPerDay :: int where "msPerDay = 86400000"

definition Day :: "jsdate \<Rightarrow> int" where "Day t = t div msPerDay"

definition TimeWithinDay :: "jsdate \<Rightarrow> int" where "TimeWithinDay t = t mod msPerDay"

definition DaysInYear :: "int \<Rightarrow> int" where
  "DaysInYear y = (if y mod 4 \<noteq> 0 then 365 else if y mod 100 \<noteq> 0 then 366
                   else if y mod 400 \<noteq> 0 then 365 else 366)"

definition DayFromYear :: "int \<Rightarrow> int" where
  "DayFromYear y = 365 * (y - 1970) + (y - 1969) div 4 - (y - 1901) div 100 + (y - 1601) div 400"

text \<open>
  \<open>YearFromTime t\<close> is the largest year \<open>y\<close> whose first day is not after \<open>t\<close>. It is
  computed by a search upwards from a year that is not too late: no year has more than 366
  days, and none fewer than 365. The search ends because the first days of successive years
  increase, which the next lemmas show.
\<close>

lemma div_succ:
  fixes x n :: int
  assumes "0 < n"
  shows "(x + 1) div n = x div n + (if (x + 1) mod n = 0 then 1 else 0)"
proof (cases "x mod n + 1 < n")
  case True
  have "x + 1 = n * (x div n) + (x mod n + 1)" by simp
  moreover have "0 \<le> x mod n + 1" using assms by (simp add: add_nonneg_nonneg)
  ultimately have d: "(x + 1) div n = x div n" and m: "(x + 1) mod n = x mod n + 1"
    using True assms by (metis int_div_pos_eq, metis int_mod_pos_eq)
  have "0 \<le> x mod n" using assms by simp
  with d m show ?thesis by simp
next
  case False
  have "x mod n < n" using assms by simp
  with False have r: "x mod n = n - 1" by linarith
  have e: "x = n * (x div n) + x mod n" by simp
  have "n * (x div n + 1) = n * (x div n) + n" by (simp add: algebra_simps)
  with e r have "x + 1 = n * (x div n + 1) + 0" by linarith
  then have d: "(x + 1) div n = x div n + 1" and m: "(x + 1) mod n = 0"
    using assms by (metis int_div_pos_eq order_refl, metis int_mod_pos_eq order_refl)
  then show ?thesis by simp
qed

lemma mod_4_shift: "((y::int) - 1968) mod 4 = y mod 4"
proof -
  have "y - 1968 = y + (- 492) * 4" by simp
  then show ?thesis by (metis mod_mult_self1)
qed

lemma mod_100_shift: "((y::int) - 1900) mod 100 = y mod 100"
proof -
  have "y - 1900 = y + (- 19) * 100" by simp
  then show ?thesis by (metis mod_mult_self1)
qed

lemma mod_400_shift: "((y::int) - 1600) mod 400 = y mod 400"
proof -
  have "y - 1600 = y + (- 4) * 400" by simp
  then show ?thesis by (metis mod_mult_self1)
qed

lemma mod_400_100: "(y::int) mod 400 = 0 \<Longrightarrow> y mod 100 = 0"
proof -
  assume "y mod 400 = 0"
  then have "400 dvd y" by (simp add: dvd_eq_mod_eq_0)
  moreover have "(100::int) dvd 400" by simp
  ultimately have "100 dvd y" by (rule dvd_trans [rotated])
  then show ?thesis by (simp add: dvd_eq_mod_eq_0)
qed

lemma mod_100_4: "(y::int) mod 100 = 0 \<Longrightarrow> y mod 4 = 0"
proof -
  assume "y mod 100 = 0"
  then have "100 dvd y" by (simp add: dvd_eq_mod_eq_0)
  moreover have "(4::int) dvd 100" by simp
  ultimately have "4 dvd y" by (rule dvd_trans [rotated])
  then show ?thesis by (simp add: dvd_eq_mod_eq_0)
qed

lemma DayFromYear_Suc: "DayFromYear (y + 1) = DayFromYear y + DaysInYear y"
proof -
  have a: "(y + 1 - 1969) div 4 = (y - 1969) div 4 + (if y mod 4 = 0 then 1 else 0)"
    using div_succ [of 4 "y - 1969"] mod_4_shift [of y] by (simp add: algebra_simps)
  have b: "(y + 1 - 1901) div 100 = (y - 1901) div 100 + (if y mod 100 = 0 then 1 else 0)"
    using div_succ [of 100 "y - 1901"] mod_100_shift [of y] by (simp add: algebra_simps)
  have c: "(y + 1 - 1601) div 400 = (y - 1601) div 400 + (if y mod 400 = 0 then 1 else 0)"
    using div_succ [of 400 "y - 1601"] mod_400_shift [of y] by (simp add: algebra_simps)
  show ?thesis
    unfolding DayFromYear_def DaysInYear_def a b c
    using mod_400_100 [of y] mod_100_4 [of y] by auto
qed

lemma DaysInYear_bounds: "365 \<le> DaysInYear y \<and> DaysInYear y \<le> 366"
  by (simp add: DaysInYear_def)

function year_up :: "int \<Rightarrow> int \<Rightarrow> int" where
  "year_up d y = (if DayFromYear (y + 1) \<le> d then year_up d (y + 1) else y)"
  by pat_completeness auto
termination
proof (relation "measure (\<lambda>(d, y). nat (d + 1 - DayFromYear (y + 1)))")
  show "wf (measure (\<lambda>(d, y). nat (d + 1 - DayFromYear (y + 1))))" by simp
next
  fix d y :: int
  assume "DayFromYear (y + 1) \<le> d"
  moreover have "DayFromYear (y + 1 + 1) = DayFromYear (y + 1) + DaysInYear (y + 1)"
    by (rule DayFromYear_Suc)
  moreover have "365 \<le> DaysInYear (y + 1)" using DaysInYear_bounds by blast
  ultimately show "((d, y + 1), (d, y)) \<in> measure (\<lambda>(d, y). nat (d + 1 - DayFromYear (y + 1)))"
    by simp
qed

declare year_up.simps [simp del]

definition YearFromDay :: "int \<Rightarrow> int" where
  "YearFromDay d = year_up d (1970 + (if 0 \<le> d then d div 366 else d div 365))"

definition YearFromTime :: "jsdate \<Rightarrow> int" where
  "YearFromTime t = YearFromDay (Day t)"

definition InLeapYear :: "jsdate \<Rightarrow> int" where
  "InLeapYear t = (if DaysInYear (YearFromTime t) = 366 then 1 else 0)"

definition DayWithinYear :: "jsdate \<Rightarrow> int" where
  "DayWithinYear t = Day t - DayFromYear (YearFromTime t)"

text \<open>The month and the day of the month, from the day within the year \<open>d\<close> and the leap-year flag \<open>L\<close>.\<close>

definition month_of_day :: "int \<Rightarrow> int \<Rightarrow> int" where
  "month_of_day d L =
     (if d < 31 then 0 else if d < 59 + L then 1 else if d < 90 + L then 2
      else if d < 120 + L then 3 else if d < 151 + L then 4 else if d < 181 + L then 5
      else if d < 212 + L then 6 else if d < 243 + L then 7 else if d < 273 + L then 8
      else if d < 304 + L then 9 else if d < 334 + L then 10 else 11)"

definition MonthFromTime :: "jsdate \<Rightarrow> int" where
  "MonthFromTime t = month_of_day (DayWithinYear t) (InLeapYear t)"

definition date_in_month :: "int \<Rightarrow> int \<Rightarrow> int \<Rightarrow> int" where
  "date_in_month m d L =
     (if m = 0 then d + 1 else if m = 1 then d - 30 else if m = 2 then d - 58 - L
      else if m = 3 then d - 89 - L else if m = 4 then d - 119 - L
      else if m = 5 then d - 150 - L else if m = 6 then d - 180 - L
      else if m = 7 then d - 211 - L else if m = 8 then d - 242 - L
      else if m = 9 then d - 272 - L else if m = 10 then d - 303 - L else d - 333 - L)"

definition DateFromTime :: "jsdate \<Rightarrow> int" where
  "DateFromTime t = date_in_month (MonthFromTime t) (DayWithinYear t) (InLeapYear t)"

text \<open>
  \<open>MakeDay year month date\<close>: the day number of the first day of the month (months beyond
  0 to 11 carry into the year), plus \<open>date - 1\<close>; a \<open>date\<close> below 1 reaches back into
  the months before.
\<close>

definition monthStartDay :: "int \<Rightarrow> int \<Rightarrow> int" where
  "monthStartDay mn L =
     (if mn = 0 then 0 else if mn = 1 then 31 else if mn = 2 then 59 + L
      else if mn = 3 then 90 + L else if mn = 4 then 120 + L else if mn = 5 then 151 + L
      else if mn = 6 then 181 + L else if mn = 7 then 212 + L else if mn = 8 then 243 + L
      else if mn = 9 then 273 + L else if mn = 10 then 304 + L else 334 + L)"

definition MakeDay :: "int \<Rightarrow> int \<Rightarrow> int \<Rightarrow> int" where
  "MakeDay year month date =
     (let ym = year + month div 12; mn = month mod 12;
          L = (if DaysInYear ym = 366 then 1 else 0)
      in DayFromYear ym + monthStartDay mn L + date - 1)"

definition MakeDate :: "int \<Rightarrow> int \<Rightarrow> jsdate" where
  "MakeDate day time = day * msPerDay + time"

definition getFullYear :: "jsdate \<Rightarrow> int" where "getFullYear t = YearFromTime t"

definition getMonth :: "jsdate \<Rightarrow> int" where "getMonth t = MonthFromTime t"

definition getDate :: "jsdate \<Rightarrow> int" where "getDate t = DateFromTime t"

text \<open>\<^verbatim>\<open>d.setDate(dt)\<close> keeps the year, the month and the time of day of \<open>d\<close>.\<close>

definition setDate :: "jsdate \<Rightarrow> int \<Rightarrow> jsdate" where
  "setDate t dt = MakeDate (MakeDay (YearFromTime t) (MonthFromTime t) dt) (TimeWithinDay t)"

text \<open>
  \<^verbatim>\<open>new Date(year, month, date)\<close> is midnight of that day. The constructor reads a year
  from 0 to 99 as 1900 plus that year (in the ECMAScript specification of the constructor:
  if the year \<open>yi\<close> is from 0 to 99, the full year is \<open>1900 + yi\<close>), while
  \<^verbatim>\<open>getFullYear\<close> returns the year as it is.
\<close>

definition newDate :: "int \<Rightarrow> int \<Rightarrow> int \<Rightarrow> jsdate" where
  "newDate year month date =
     (let yr = (if 0 \<le> year \<and> year \<le> 99 then 1900 + year else year)
      in MakeDate (MakeDay yr month date) 0)"

section \<open>generateRecentDistinctDates\<close>

definition quarterStartMonth :: "int \<Rightarrow> int" where
  "quarterStartMonth month =
     (if month < 3 then 0 else if month < 6 then 3 else if month < 9 then 6 else 9)"

definition quarterStartDate :: "jsdate \<Rightarrow> jsdate" where
  "quarterStartDate referenceDate =
     (let year = getFullYear referenceDate; month = getMonth referenceDate
      in newDate year (quarterStartMonth month) 1)"

text \<open>
  The \<^verbatim>\<open>for\<close> loop of the function (source lines 669 to 676), from the counter \<open>i\<close>
  on. \<open>formatDate\<close> stands for \<^verbatim>\<open>Utilities.formatDate(d, timeZone, "M/d/yyyy")\<close>, a
  service of the platform, and is a parameter of the model, as is the type of what it
  returns: with the identity for it, the function returns the dates that it formats.
\<close>

function generate_loop ::
  "(jsdate \<Rightarrow> 'a) \<Rightarrow> int \<Rightarrow> jsdate \<Rightarrow> jsdate \<Rightarrow> nat \<Rightarrow> 'a list \<Rightarrow> 'a list" where
  "generate_loop formatDate N referenceDate quarterStart i datesArray =
     (if int i < N then
        (let eventDate = setDate referenceDate (getDate referenceDate - int i)
         in if eventDate < quarterStart then datesArray
            else generate_loop formatDate N referenceDate quarterStart (i + 1)
                   (datesArray @ [formatDate eventDate]))
      else datesArray)"
  by pat_completeness auto
termination
  by (relation "measure (\<lambda>(f, N, r, q, i, a). nat N - i)") auto

declare generate_loop.simps [simp del]

definition generateRecentDistinctDates :: "(jsdate \<Rightarrow> 'a) \<Rightarrow> int \<Rightarrow> jsdate \<Rightarrow> 'a list" where
  "generateRecentDistinctDates formatDate N referenceDate =
     (if N \<le> 0 then []
      else generate_loop formatDate N referenceDate (quarterStartDate referenceDate) 0 [])"

text \<open>
  An instance of the formatting service for the examples: month, day and four-digit year
  of the date in the script's own time zone.
\<close>

definition pad4 :: "string \<Rightarrow> string" where
  "pad4 s = replicate (4 - length s) CHR ''0'' @ s"

definition formatMdyyyy :: "jsdate \<Rightarrow> string" where
  "formatMdyyyy t = show_int (getMonth t + 1) @ ''/'' @ show_int (getDate t) @ ''/''
                      @ pad4 (show_int (getFullYear t))"

text \<open>
  The calendar quarter of a date, independently of the function: the quarter starts at
  midnight of day 1 of the first of the three months of the quarter, in the year of the
  date. \<open>daysIntoQuarter\<close> is the number of days from that day to the day of the date, both
  included.
\<close>

definition calendarQuarterStart :: "jsdate \<Rightarrow> jsdate" where
  "calendarQuarterStart t = MakeDate (MakeDay (YearFromTime t) (3 * (MonthFromTime t div 3)) 1) 0"

definition daysIntoQuarter :: "jsdate \<Rightarrow> int" where
  "daysIntoQuarter t = Day t - Day (calendarQuarterStart t) + 1"

text \<open>
  A run takes place in a year that the \<^verbatim>\<open>Date\<close> constructor reads as it is: not one of
  the years 0 to 99.
\<close>

definition fullYearDate :: "jsdate \<Rightarrow> bool" where
  "fullYearDate t = (\<not> (0 \<le> getFullYear t \<and> getFullYear t \<le> 99))"

section \<open>updateActivityLevels\<close>

text \<open>
  One row for the Event Attendance tab: an array of 14 \<^verbatim>\<open>null\<close>s with seven cells
  assigned (source lines 351 to 358).
\<close>

definition newEventAttendanceRow ::
  "cell \<Rightarrow> cell \<Rightarrow> cell \<Rightarrow> cell \<Rightarrow> string \<Rightarrow> nat \<Rightarrow> string \<Rightarrow> cell list" where
  "newEventAttendanceRow personIdUAT fullNameUAT firstNameUAT lastNameUAT formattedExecutionDate
       eventCounter eventDate =
     (replicate 14 Null)
       [0 := personIdUAT,
        1 := fullNameUAT,
        2 := Str (''BASELINE ADJUSTMENT '' @ show_nat eventCounter),
        4 := firstNameUAT,
        5 := lastNameUAT,
        10 := Str eventDate,
        13 := Str formattedExecutionDate]"

text \<open>
  The loop over \<^verbatim>\<open>eventDates\<close> (source lines 349 to 362), with its counter and the rows
  pushed so far.
\<close>

fun buildRows ::
  "cell \<Rightarrow> cell \<Rightarrow> cell \<Rightarrow> cell \<Rightarrow> string \<Rightarrow> string list \<Rightarrow> nat \<Rightarrow> cell list list
     \<Rightarrow> cell list list" where
  "buildRows pid full fnm lnm exec [] eventCounter rows = rows"
| "buildRows pid full fnm lnm exec (eventDate # rest) eventCounter rows =
     buildRows pid full fnm lnm exec rest (eventCounter + 1)
       (rows @ [newEventAttendanceRow pid full fnm lnm exec eventCounter eventDate])"

definition rowsForEventAttendance ::
  "(jsdate \<Rightarrow> string) \<Rightarrow> jsdate \<Rightarrow> cell list \<Rightarrow> int \<Rightarrow> cell list list" where
  "rowsForEventAttendance formatDate today uatRow newScore =
     (let eventDates = generateRecentDistinctDates formatDate newScore today
      in buildRows (at uatRow (UAT_COL_ID - 1)) (at uatRow (UAT_COL_FULL_NAME - 1))
           (at uatRow (UAT_COL_FIRST_NAME - 1)) (at uatRow (UAT_COL_LAST_NAME - 1))
           (formatDate today) eventDates 1 [])"

text \<open>
  The state of the run: the four tallies of the source, the contents of the Attendance
  Stats tab and the rows of the Event Attendance tab up to its last row.
\<close>

record run_state =
  recordsToProcessCount :: nat
  recordsSkippedOrFailed :: "string list"
  recordsMissingDetailsUAT :: nat
  eventAttendancesLogged :: nat
  statsSheet :: "cell list list"
  eventAttendanceSheet :: "cell list list"

definition unknownLevelDetail :: "cell list \<Rightarrow> string" where
  "unknownLevelDetail uatRow =
     String (at uatRow (UAT_COL_FIRST_NAME - 1)) @ '' '' @ String (at uatRow (UAT_COL_LAST_NAME - 1))
       @ '' (ID: '' @ String (at uatRow (UAT_COL_ID - 1)) @ '') - Unknown Level''"

text \<open>
  The body of the loop over the tracker rows (source lines 294 to 377). \<open>statsData\<close> is the snapshot of the
  Attendance Stats tab read before the loop. The \<^verbatim>\<open>default\<close> branch of the
  \<^verbatim>\<open>switch\<close> (the score is \<open>None\<close>) records the person and goes on to the next row.
\<close>

definition processRow ::
  "(jsdate \<Rightarrow> string) \<Rightarrow> jsdate \<Rightarrow> cell list list \<Rightarrow> run_state \<Rightarrow> cell list \<Rightarrow> run_state" where
  "processRow formatDate today statsData st uatRow =
     (let personIdUAT = at uatRow (UAT_COL_ID - 1);
          lastNameUAT = at uatRow (UAT_COL_LAST_NAME - 1);
          firstNameUAT = at uatRow (UAT_COL_FIRST_NAME - 1);
          activityLevelUAT = at uatRow (UAT_COL_ACTIVITY_LEVEL - 1)
      in if hasText personIdUAT \<and> hasText lastNameUAT \<and> hasText firstNameUAT
            \<and> hasText activityLevelUAT
         then
           (let st1 = st\<lparr>recordsToProcessCount := recordsToProcessCount st + 1\<rparr>
            in case scoreFor statsData uatRow of
                 None \<Rightarrow>
                   st1\<lparr>recordsSkippedOrFailed :=
                          recordsSkippedOrFailed st1 @ [unknownLevelDetail uatRow]\<rparr>
               | Some newScore \<Rightarrow>
                   if newScore > 0 then
                     (let rows = rowsForEventAttendance formatDate today uatRow newScore
                      in if length rows > 0
                         then st1\<lparr>eventAttendanceSheet := eventAttendanceSheet st1 @ rows,
                                  eventAttendancesLogged := eventAttendancesLogged st1 + length rows\<rparr>
                         else st1)
                   else st1)
         else if hasText activityLevelUAT
                 \<and> \<not> (hasText personIdUAT \<and> hasText lastNameUAT \<and> hasText firstNameUAT)
         then st\<lparr>recordsMissingDetailsUAT := recordsMissingDetailsUAT st + 1\<rparr>
         else st)"

fun processRows ::
  "(jsdate \<Rightarrow> string) \<Rightarrow> jsdate \<Rightarrow> cell list list \<Rightarrow> run_state \<Rightarrow> cell list list \<Rightarrow> run_state" where
  "processRows formatDate today statsData st [] = st"
| "processRows formatDate today statsData st (uatRow # rest) =
     processRows formatDate today statsData (processRow formatDate today statsData st uatRow) rest"

text \<open>The rows that one tracker row adds to the Event Attendance tab.\<close>

definition loggedRows :: "(jsdate \<Rightarrow> string) \<Rightarrow> jsdate \<Rightarrow> cell list list \<Rightarrow> cell list \<Rightarrow> cell list list" where
  "loggedRows formatDate today statsData uatRow =
     eventAttendanceSheet
       (processRow formatDate today statsData
          \<lparr>recordsToProcessCount = 0, recordsSkippedOrFailed = [], recordsMissingDetailsUAT = 0,
           eventAttendancesLogged = 0, statsSheet = statsData, eventAttendanceSheet = []\<rparr>
          uatRow)"

text \<open>
  The function from the point where the community's spreadsheet is open (source lines 253
  to 378; the checks before it only show an alert and return): its two tabs
  (\<open>None\<close> when a tab does not exist), the data rows of the tracker (from row 7 on, five
  columns) and the time of the run. A missing Event Attendance tab is created with its
  header row before the tracker rows are looked at.
\<close>

record stats_spreadsheet =
  attendanceStatsTab :: "cell list list option"
  eventAttendanceTab :: "cell list list option"

definition eventAttendanceHeader :: "cell list" where
  "eventAttendanceHeader =
     [Str ''Person ID'', Str ''Full Name'', Str ''Event'', Str ''First Name'', Str ''Last Name'',
      Null, Null, Null, Null, Null, Str ''Event Date'', Null, Null, Str ''Update Timestamp'']"

datatype outcome = Alert_Error | Alert_NoData | Processing_Complete run_state

definition updateActivityLevels ::
  "(jsdate \<Rightarrow> string) \<Rightarrow> jsdate \<Rightarrow> cell list list \<Rightarrow> stats_spreadsheet
     \<Rightarrow> stats_spreadsheet \<times> outcome" where
  "updateActivityLevels formatDate today uatData statsSpreadsheets =
     (case attendanceStatsTab statsSpreadsheets of
        None \<Rightarrow> (statsSpreadsheets, Alert_Error)
      | Some statsData \<Rightarrow>
          (let (ss, eventRows) =
                 (case eventAttendanceTab statsSpreadsheets of
                    None \<Rightarrow> (statsSpreadsheets\<lparr>eventAttendanceTab := Some [eventAttendanceHeader]\<rparr>,
                               [eventAttendanceHeader])
                  | Some rows \<Rightarrow> (statsSpreadsheets, rows))
           in if uatData = [] then (ss, Alert_NoData)
              else
                (let st0 = \<lparr>recordsToProcessCount = 0, recordsSkippedOrFailed = [],
                            recordsMissingDetailsUAT = 0, eventAttendancesLogged = 0,
                            statsSheet = statsData, eventAttendanceSheet = eventRows\<rparr>;
                     st = processRows formatDate today statsData st0 uatData
                 in (ss\<lparr>attendanceStatsTab := Some (statsSheet st),
                        eventAttendanceTab := Some (eventAttendanceSheet st)\<rparr>,
                     Processing_Complete st))))"

text \<open>A tracker row that passes the test for identity and level (source lines 300 to 303).\<close>

definition completeRow :: "cell list \<Rightarrow> bool" where
  "completeRow uatRow =
     (hasText (at uatRow (UAT_COL_ID - 1)) \<and> hasText (at uatRow (UAT_COL_LAST_NAME - 1)) \<and>
      hasText (at uatRow (UAT_COL_FIRST_NAME - 1)) \<and> hasText (at uatRow (UAT_COL_ACTIVITY_LEVEL - 1)))"

section \<open>Example data\<close>

text \<open>
  Sheets and rows for the examples: a statistics tab with a header row and one person, a
  tracker row for that person with a given level, statistics rows with negative numbers and
  with text in place of a number, and the tallies at the start of a run.
\<close>

definition exampleStats :: "cell list list" where
  "exampleStats =
     [[Str ''Person ID'', Str ''Full Name'', Str ''First Name'', Str ''Last Name'',
       Str ''Events This Quarter''],
      [Str ''7 '', Null, Str ''ANN'', Str ''lee'', Num 5, Null, Null, Null, Null, Null, Null, Str ''0'']]"

definition examplePerson :: "string \<Rightarrow> cell list" where
  "examplePerson level = [Num 7, Str ''Ann Lee'', Str ''Lee'', Str ''Ann'', Str level]"

definition caseStats :: "cell list list" where
  "caseStats =
     [[Str ''AB1'', Null, Str ''Ann'', Str ''Lee'', Num 5, Null, Null, Null, Null, Null, Null, Num 2]]"

text \<open>
  A statistics row and a tracker row for one person whose first name ends in a capital and
  in a small \<^verbatim>\<open>e\<close> with acute accent (the characters 201 and 233).
\<close>

definition accentStats :: "cell list list" where
  "accentStats =
     [[Str ''J1'', Null, Str (''JOS'' @ [CHR 0xC9]), Str ''Lee'', Num 4, Null, Null, Null, Null,
       Null, Null, Num 1]]"

definition accentPerson :: "cell list" where
  "accentPerson = [Str ''J1 '', Str ''Jose Lee'', Str ''lee'', Str (''Jos'' @ [CHR 0xE9]), Str ''Active'']"

definition negativeStats :: "cell list" where
  "negativeStats =
     [Num 7, Null, Str ''Ann'', Str ''Lee'', Num (- 5), Null, Null, Null, Null, Null, Null, Num (- 2)]"

definition garbageStats :: "cell list" where
  "garbageStats =
     [Num 7, Null, Str ''Ann'', Str ''Lee'', Str ''n/a'', Null, Null, Null, Null, Null, Null, Num (- 40)]"

definition emptyTally :: "cell list list \<Rightarrow> cell list list \<Rightarrow> run_state" where
  "emptyTally statsData eventRows =
     \<lparr>recordsToProcessCount = 0, recordsSkippedOrFailed = [], recordsMissingDetailsUAT = 0,
      eventAttendancesLogged = 0, statsSheet = statsData, eventAttendanceSheet = eventRows\<rparr>"

section \<open>Auxiliary facts\<close>

subsection \<open>Digits\<close>

lemma digit_char_props:
  assumes "d < 10"
  shows "isDigit (digit_char d)" and "digitVal (digit_char d) = d"
    and "\<not> isWhiteSpace (digit_char d)" and "digit_char d \<noteq> CHR ''-''" and "digit_char d \<noteq> CHR ''+''"
proof -
  have o: "(of_char (digit_char d) :: nat) = 48 + d"
    using assms by (simp add: digit_char_def)
  show "isDigit (digit_char d)" using assms by (simp add: isDigit_def o)
  show "digitVal (digit_char d) = d" by (simp add: digitVal_def o)
  show "\<not> isWhiteSpace (digit_char d)" using assms by (simp add: isWhiteSpace_def o)
  show "digit_char d \<noteq> CHR ''-''" using o by auto
  show "digit_char d \<noteq> CHR ''+''" using o by auto
qed

lemma show_nat_digits: "show_nat n \<noteq> [] \<and> (\<forall>c \<in> set (show_nat n). isDigit c)"
proof (induction n rule: show_nat.induct)
  case (1 n)
  show ?case
  proof (cases "n < 10")
    case True
    then show ?thesis by (simp add: show_nat.simps [of n] digit_char_props)
  next
    case False
    have "n mod 10 < 10" by simp
    with False 1 show ?thesis by (simp add: show_nat.simps [of n] digit_char_props)
  qed
qed

lemma digitsValue_snoc: "digitsValue (Z @ [c]) = 10 * digitsValue Z + digitVal c"
  by (simp add: digitsValue_def)

lemma digitsValue_show_nat: "digitsValue (show_nat n) = n"
proof (induction n rule: show_nat.induct)
  case (1 n)
  show ?case
  proof (cases "n < 10")
    case True
    then show ?thesis by (simp add: show_nat.simps [of n] digitsValue_def digit_char_props)
  next
    case False
    have "n mod 10 < 10" by simp
    with False 1 show ?thesis
      by (simp add: show_nat.simps [of n] digitsValue_snoc digit_char_props)
  qed
qed

lemma takeWhile_show_nat: "takeWhile isDigit (show_nat n) = show_nat n"
  using show_nat_digits [of n] by (simp add: takeWhile_eq_all_conv)

lemma hd_show_nat: "isDigit (hd (show_nat n))"
  using show_nat_digits [of n] by (cases "show_nat n") auto

lemma isDigit_not_others:
  "isDigit c \<Longrightarrow> \<not> isWhiteSpace c \<and> c \<noteq> CHR ''-'' \<and> c \<noteq> CHR ''+''"
  by (auto simp: isDigit_def isWhiteSpace_def Let_def)

lemma parseInt10_show_nat: "parseInt10 (show_nat n) = Some (int n)"
proof -
  obtain c cs where s: "show_nat n = c # cs"
    using show_nat_digits [of n] by (cases "show_nat n") auto
  have c: "isDigit c" using hd_show_nat [of n] s by simp
  then have n: "\<not> isWhiteSpace c" "c \<noteq> CHR ''-''" "c \<noteq> CHR ''+''"
    using isDigit_not_others by blast+
  have t: "trimStart (show_nat n) = show_nat n" using n by (simp add: trimStart_def s)
  have "takeWhile isDigit (c # cs) = c # cs" using takeWhile_show_nat [of n] s by simp
  moreover have "digitsValue (c # cs) = n" using digitsValue_show_nat [of n] s by simp
  ultimately show ?thesis
    unfolding parseInt10_def t using n by (simp add: s Let_def)
qed

lemma parseInt10_show_int: "parseInt10 (show_int i) = Some i"
proof (cases "i < 0")
  case False
  then show ?thesis by (simp add: show_int_def parseInt10_show_nat)
next
  case True
  let ?n = "nat (- i)"
  have w: "\<not> isWhiteSpace CHR ''-''" by (simp add: isWhiteSpace_def)
  have t: "trimStart (CHR ''-'' # show_nat ?n) = CHR ''-'' # show_nat ?n"
    using w by (simp add: trimStart_def)
  have "show_nat ?n \<noteq> []" using show_nat_digits by blast
  then have "parseInt10 (CHR ''-'' # show_nat ?n) = Some (- int (digitsValue (show_nat ?n)))"
    unfolding parseInt10_def t by (simp add: Let_def takeWhile_show_nat)
  with True show ?thesis by (simp add: show_int_def digitsValue_show_nat)
qed

lemma intOrZero_Num: "intOrZero (Num n) = n"
  by (simp add: intOrZero_def orZero_def parseInt10_show_int)

subsection \<open>Years, months and days\<close>

lemma year_up_spec:
  "DayFromYear y \<le> d \<Longrightarrow> DayFromYear (year_up d y) \<le> d \<and> d < DayFromYear (year_up d y + 1)"
proof (induction d y rule: year_up.induct)
  case (1 d y)
  show ?case
  proof (cases "DayFromYear (y + 1) \<le> d")
    case True
    with 1 show ?thesis by (simp add: year_up.simps [of d y])
  next
    case False
    with 1 show ?thesis by (simp add: year_up.simps [of d y])
  qed
qed

lemma floor_mult_le:
  fixes a n :: int
  assumes "0 < n"
  shows "n * (a div n) \<le> a"
proof -
  have "a = n * (a div n) + a mod n" by simp
  moreover have "0 \<le> a mod n" using assms by simp
  ultimately show ?thesis by linarith
qed

lemma DayFromYear_1970: "DayFromYear 1970 = 0"
  by (simp add: DayFromYear_def)

lemma estimate_nonneg: "0 \<le> q \<Longrightarrow> DayFromYear (1970 + q) \<le> 366 * q"
proof (induction q rule: int_ge_induct)
  case base
  then show ?case by (simp add: DayFromYear_1970)
next
  case (step i)
  have e: "DayFromYear (1970 + (i + 1)) = DayFromYear (1970 + i) + DaysInYear (1970 + i)"
    using DayFromYear_Suc [of "1970 + i"] by (simp add: add.assoc)
  have "DaysInYear (1970 + i) \<le> 366" using DaysInYear_bounds by blast
  with step show ?case unfolding e by (simp add: algebra_simps)
qed

lemma estimate_neg: "q \<le> 0 \<Longrightarrow> DayFromYear (1970 + q) \<le> 365 * q"
proof (induction q rule: int_le_induct)
  case base
  then show ?case by (simp add: DayFromYear_1970)
next
  case (step i)
  have "DayFromYear (1970 + (i - 1) + 1) = DayFromYear (1970 + (i - 1)) + DaysInYear (1970 + (i - 1))"
    by (rule DayFromYear_Suc)
  moreover have "1970 + (i - 1) + 1 = 1970 + i" by simp
  ultimately have e: "DayFromYear (1970 + i) = DayFromYear (1970 + (i - 1)) + DaysInYear (1970 + (i - 1))"
    by simp
  have "365 \<le> DaysInYear (1970 + (i - 1))" using DaysInYear_bounds by blast
  with step(2) show ?case unfolding e by (simp add: algebra_simps)
qed

lemma YearFromDay_spec:
  "DayFromYear (YearFromDay d) \<le> d \<and> d < DayFromYear (YearFromDay d + 1)"
proof -
  have "DayFromYear (1970 + (if 0 \<le> d then d div 366 else d div 365)) \<le> d"
  proof (cases "0 \<le> d")
    case True
    then have "0 \<le> d div 366" by simp
    from estimate_nonneg [OF this] have "DayFromYear (1970 + d div 366) \<le> 366 * (d div 366)" .
    also have "\<dots> \<le> d" using floor_mult_le [of 366 d] by simp
    finally show ?thesis using True by simp
  next
    case False
    then have "d div 365 \<le> 0" by (simp add: div_int_pos_iff not_le order_less_imp_le zdiv_mono1_neg)
    from estimate_neg [OF this] have "DayFromYear (1970 + d div 365) \<le> 365 * (d div 365)" .
    also have "\<dots> \<le> d" using floor_mult_le [of 365 d] by simp
    finally show ?thesis using False by simp
  qed
  then show ?thesis unfolding YearFromDay_def by (rule year_up_spec)
qed

lemma DayFromYear_mono_aux: "0 \<le> k \<Longrightarrow> DayFromYear y \<le> DayFromYear (y + k)"
proof (induction k rule: int_ge_induct)
  case base
  then show ?case by simp
next
  case (step i)
  have "DayFromYear (y + (i + 1)) = DayFromYear (y + i) + DaysInYear (y + i)"
    using DayFromYear_Suc [of "y + i"] by (simp add: add.assoc)
  with step DaysInYear_bounds [of "y + i"] show ?case by linarith
qed

lemma DayFromYear_mono: "y \<le> y' \<Longrightarrow> DayFromYear y \<le> DayFromYear y'"
  using DayFromYear_mono_aux [of "y' - y" y] by simp

lemma YearFromDay_unique:
  assumes "DayFromYear y \<le> d" and "d < DayFromYear (y + 1)"
  shows "YearFromDay d = y"
proof -
  let ?z = "YearFromDay d"
  from YearFromDay_spec [of d] have z: "DayFromYear ?z \<le> d" "d < DayFromYear (?z + 1)" by simp_all
  have "\<not> ?z < y"
  proof
    assume "?z < y"
    then have "DayFromYear (?z + 1) \<le> DayFromYear y" by (intro DayFromYear_mono) simp
    with z assms show False by linarith
  qed
  moreover have "\<not> y < ?z"
  proof
    assume "y < ?z"
    then have "DayFromYear (y + 1) \<le> DayFromYear ?z" by (intro DayFromYear_mono) simp
    with z assms show False by linarith
  qed
  ultimately show ?thesis by simp
qed

lemma DayWithinYear_bounds: "0 \<le> DayWithinYear t \<and> DayWithinYear t < 365 + InLeapYear t"
proof -
  let ?y = "YearFromTime t"
  have s: "DayFromYear ?y \<le> Day t" "Day t < DayFromYear (?y + 1)"
    using YearFromDay_spec [of "Day t"] by (simp_all add: YearFromTime_def)
  have "DaysInYear ?y = 365 + InLeapYear t"
    using DaysInYear_bounds [of ?y] by (auto simp: InLeapYear_def DaysInYear_def)
  with s show ?thesis by (simp add: DayWithinYear_def DayFromYear_Suc)
qed

lemma InLeapYear_cases: "InLeapYear t = 0 \<or> InLeapYear t = 1"
  by (simp add: InLeapYear_def)

lemma month_of_day_range: "0 \<le> month_of_day d L \<and> month_of_day d L \<le> 11"
  by (simp add: month_of_day_def)

lemma monthStart_date:
  "monthStartDay (month_of_day d L) L + date_in_month (month_of_day d L) d L - 1 = d"
  by (simp add: month_of_day_def monthStartDay_def date_in_month_def)

lemma monthStart_le: "0 \<le> d \<Longrightarrow> 0 \<le> L \<Longrightarrow> monthStartDay (month_of_day d L) L \<le> d"
  by (simp add: month_of_day_def monthStartDay_def)

lemma MakeDay_fields:
  "MakeDay (YearFromTime t) (MonthFromTime t) dt = Day t - DateFromTime t + dt"
proof -
  let ?m = "MonthFromTime t"
  have r: "0 \<le> ?m" "?m \<le> 11"
    using month_of_day_range by (simp_all add: MonthFromTime_def)
  then have dm: "?m div 12 = 0" "?m mod 12 = ?m" by simp_all
  have "MakeDay (YearFromTime t) ?m dt
        = DayFromYear (YearFromTime t) + monthStartDay ?m (InLeapYear t) + dt - 1"
    by (simp add: MakeDay_def dm InLeapYear_def Let_def)
  moreover have "monthStartDay ?m (InLeapYear t) + DateFromTime t - 1 = DayWithinYear t"
    unfolding MonthFromTime_def DateFromTime_def by (rule monthStart_date)
  ultimately show ?thesis by (simp add: DayWithinYear_def)
qed

lemma Day_shift: "Day (t - j * msPerDay) = Day t - j"
  by (simp add: Day_def msPerDay_def)

lemma setDate_back: "setDate t (getDate t - i) = t - i * msPerDay"
proof -
  have "t = Day t * msPerDay + TimeWithinDay t"
    by (simp add: Day_def TimeWithinDay_def)
  then show ?thesis
    by (simp add: setDate_def getDate_def MakeDay_fields MakeDate_def algebra_simps)
qed

lemma monthStartDay_nonneg: "0 \<le> L \<Longrightarrow> 0 \<le> monthStartDay m L"
  by (simp add: monthStartDay_def)

lemma monthStartDay_ge3: "0 \<le> L \<Longrightarrow> 3 \<le> m \<Longrightarrow> 90 + L \<le> monthStartDay m L"
  by (simp add: monthStartDay_def)

lemma monthStartDay_ge6: "0 \<le> L \<Longrightarrow> 6 \<le> m \<Longrightarrow> 181 + L \<le> monthStartDay m L"
  by (simp add: monthStartDay_def)

lemma monthStartDay_ge9: "0 \<le> L \<Longrightarrow> 9 \<le> m \<Longrightarrow> 273 + L \<le> monthStartDay m L"
  by (simp add: monthStartDay_def)

lemma monthStartDay_quarter_le:
  assumes "0 \<le> L"
  shows "monthStartDay (quarterStartMonth m) L \<le> monthStartDay m L"
proof -
  consider "m < 3" | "3 \<le> m" "m < 6" | "6 \<le> m" "m < 9" | "9 \<le> m" by linarith
  then show ?thesis
  proof cases
    case 1
    then have "monthStartDay (quarterStartMonth m) L = 0"
      by (simp add: quarterStartMonth_def monthStartDay_def)
    with monthStartDay_nonneg [OF assms, of m] show ?thesis by simp
  next
    case 2
    then have "monthStartDay (quarterStartMonth m) L = 90 + L"
      by (simp add: quarterStartMonth_def monthStartDay_def)
    with monthStartDay_ge3 [OF assms, of m] 2 show ?thesis by simp
  next
    case 3
    then have "monthStartDay (quarterStartMonth m) L = 181 + L"
      by (simp add: quarterStartMonth_def monthStartDay_def)
    with monthStartDay_ge6 [OF assms, of m] 3 show ?thesis by simp
  next
    case 4
    then have "monthStartDay (quarterStartMonth m) L = 273 + L"
      by (simp add: quarterStartMonth_def monthStartDay_def)
    with monthStartDay_ge9 [OF assms, of m] 4 show ?thesis by simp
  qed
qed

lemma Day_MakeDate0: "Day (MakeDate d 0) = d" "TimeWithinDay (MakeDate d 0) = 0"
  by (simp_all add: Day_def TimeWithinDay_def MakeDate_def msPerDay_def)

lemma quarterStartMonth_cases:
  "quarterStartMonth m = 0 \<or> quarterStartMonth m = 3 \<or> quarterStartMonth m = 6 \<or> quarterStartMonth m = 9"
  by (simp add: quarterStartMonth_def)

lemma MakeDay_quarter:
  "MakeDay y (quarterStartMonth m) 1 =
     DayFromYear y + monthStartDay (quarterStartMonth m) (if DaysInYear y = 366 then 1 else 0)"
  using quarterStartMonth_cases [of m] by (auto simp: MakeDay_def Let_def)

lemma quarterStart_le:
  assumes "\<not> (0 \<le> getFullYear t \<and> getFullYear t \<le> 99)"
  shows "quarterStartDate t \<le> t" and "Day (quarterStartDate t) \<le> Day t"
proof -
  let ?y = "YearFromTime t" and ?m = "MonthFromTime t" and ?L = "InLeapYear t"
  have q: "quarterStartDate t = MakeDate (MakeDay ?y (quarterStartMonth ?m) 1) 0"
    using assms by (auto simp: quarterStartDate_def newDate_def getFullYear_def getMonth_def Let_def)
  have L: "0 \<le> ?L" using InLeapYear_cases [of t] by auto
  have d: "0 \<le> DayWithinYear t" using DayWithinYear_bounds by blast
  have "MakeDay ?y (quarterStartMonth ?m) 1 = DayFromYear ?y + monthStartDay (quarterStartMonth ?m) ?L"
    by (simp add: MakeDay_quarter InLeapYear_def)
  also have "\<dots> \<le> DayFromYear ?y + monthStartDay ?m ?L"
    using monthStartDay_quarter_le [OF L] by simp
  also have "\<dots> \<le> DayFromYear ?y + DayWithinYear t"
    using monthStart_le [OF d L] by (simp add: MonthFromTime_def)
  also have "\<dots> = Day t" by (simp add: DayWithinYear_def)
  finally have le: "MakeDay ?y (quarterStartMonth ?m) 1 \<le> Day t" .
  then show "Day (quarterStartDate t) \<le> Day t" by (simp add: q Day_MakeDate0)
  have "t = Day t * msPerDay + TimeWithinDay t" by (simp add: Day_def TimeWithinDay_def)
  moreover have "0 \<le> TimeWithinDay t" by (simp add: TimeWithinDay_def msPerDay_def)
  moreover have "MakeDay ?y (quarterStartMonth ?m) 1 * msPerDay \<le> Day t * msPerDay"
    using le by (simp add: msPerDay_def)
  ultimately show "quarterStartDate t \<le> t" by (simp add: q MakeDate_def)
qed

lemma monthStartDay_quarter_bounds:
  "0 \<le> L \<Longrightarrow> L \<le> 1 \<Longrightarrow> 0 \<le> monthStartDay (quarterStartMonth m) L \<and> monthStartDay (quarterStartMonth m) L < 365"
  by (simp add: quarterStartMonth_def monthStartDay_def)

lemma month_of_quarter_start:
  "0 \<le> L \<Longrightarrow> L \<le> 1 \<Longrightarrow>
    month_of_day (monthStartDay (quarterStartMonth m) L) L = quarterStartMonth m"
  by (simp add: quarterStartMonth_def monthStartDay_def month_of_day_def)

lemma date_of_quarter_start:
  "date_in_month (quarterStartMonth m) (monthStartDay (quarterStartMonth m) L) L = 1"
  by (simp add: quarterStartMonth_def monthStartDay_def date_in_month_def)

lemma quarterStart_fields:
  assumes "\<not> (0 \<le> getFullYear t \<and> getFullYear t \<le> 99)"
  shows "getFullYear (quarterStartDate t) = getFullYear t"
    and "getMonth (quarterStartDate t) = quarterStartMonth (getMonth t)"
    and "getDate (quarterStartDate t) = 1"
    and "TimeWithinDay (quarterStartDate t) = 0"
proof -
  let ?y = "YearFromTime t" and ?m = "MonthFromTime t"
  let ?L = "if DaysInYear ?y = 366 then 1 else 0 :: int"
  let ?q = "quarterStartDate t"
  have q: "?q = MakeDate (MakeDay ?y (quarterStartMonth ?m) 1) 0"
    using assms by (auto simp: quarterStartDate_def newDate_def getFullYear_def getMonth_def Let_def)
  have L: "0 \<le> ?L" "?L \<le> 1" by simp_all
  have D: "Day ?q = DayFromYear ?y + monthStartDay (quarterStartMonth ?m) ?L"
    by (simp add: q Day_MakeDate0 MakeDay_quarter)
  have b: "0 \<le> monthStartDay (quarterStartMonth ?m) ?L" "monthStartDay (quarterStartMonth ?m) ?L < 365"
    using monthStartDay_quarter_bounds [OF L] by blast+
  have "365 \<le> DaysInYear ?y" using DaysInYear_bounds by blast
  with b have "DayFromYear ?y \<le> Day ?q" "Day ?q < DayFromYear (?y + 1)"
    by (simp_all add: D DayFromYear_Suc)
  then have Y: "YearFromTime ?q = ?y"
    unfolding YearFromTime_def by (rule YearFromDay_unique)
  then show "getFullYear ?q = getFullYear t" by (simp add: getFullYear_def)
  have W: "DayWithinYear ?q = monthStartDay (quarterStartMonth ?m) ?L"
    by (simp add: DayWithinYear_def Y D)
  have IL: "InLeapYear ?q = ?L" by (simp add: InLeapYear_def Y)
  have M: "MonthFromTime ?q = quarterStartMonth ?m"
    unfolding MonthFromTime_def W IL by (rule month_of_quarter_start [OF L])
  then show "getMonth ?q = quarterStartMonth (getMonth t)" by (simp add: getMonth_def)
  show "getDate ?q = 1"
    unfolding getDate_def DateFromTime_def M W IL by (rule date_of_quarter_start)
  show "TimeWithinDay ?q = 0" by (simp add: q Day_MakeDate0)
qed

subsection \<open>The walk over the dates\<close>

lemma before_iff: "t - int i * msPerDay < q \<longleftrightarrow> (t - q) div msPerDay < int i"
proof -
  let ?a = "t - q"
  have e: "?a = 86400000 * (?a div 86400000) + ?a mod 86400000" by simp
  have r: "0 \<le> ?a mod 86400000" "?a mod 86400000 < 86400000" by simp_all
  show ?thesis unfolding msPerDay_def using e r by linarith
qed

lemma generate_loop_eq:
  "generate_loop f N t q i acc =
     acc @ map (\<lambda>j. f (t - int j * msPerDay)) [i ..< nat (min N ((t - q) div msPerDay + 1))]"
proof (induction f N t q i acc rule: generate_loop.induct)
  case (1 f N t q i acc)
  let ?m = "nat (min N ((t - q) div msPerDay + 1))"
  show ?case
  proof (cases "int i < N")
    case False
    then have "?m \<le> i" by simp
    with False show ?thesis by (simp add: generate_loop.simps [of f N t q i acc])
  next
    case True
    show ?thesis
    proof (cases "t - int i * msPerDay < q")
      case before: True
      then have "(t - q) div msPerDay < int i" by (simp add: before_iff)
      then have "?m \<le> i" by simp
      with True before show ?thesis
        by (simp add: generate_loop.simps [of f N t q i acc] setDate_back)
    next
      case False
      then have "int i \<le> (t - q) div msPerDay" by (simp add: before_iff)
      with True have "i < ?m" by simp
      then have u: "[i ..< ?m] = i # [i + 1 ..< ?m]" by (simp add: upt_conv_Cons)
      have "generate_loop f N t q i acc
            = generate_loop f N t q (i + 1) (acc @ [f (t - int i * msPerDay)])"
        using True False by (simp add: generate_loop.simps [of f N t q i acc] setDate_back)
      also have "\<dots> = (acc @ [f (t - int i * msPerDay)]) @
           map (\<lambda>j. f (t - int j * msPerDay)) [i + 1 ..< ?m]"
        using "1.IH" [OF True refl] False by (simp add: setDate_back)
      finally show ?thesis by (simp add: u)
    qed
  qed
qed

lemma quarterStart_midnight: "quarterStartDate t = Day (quarterStartDate t) * msPerDay"
  by (simp add: quarterStartDate_def newDate_def Let_def MakeDate_def Day_def msPerDay_def)

lemma days_since_quarterStart:
  "(t - quarterStartDate t) div msPerDay = Day t - Day (quarterStartDate t)"
proof -
  have "(t - Day (quarterStartDate t) * msPerDay) div msPerDay = Day t - Day (quarterStartDate t)"
    using Day_shift [of t "Day (quarterStartDate t)"] by (simp add: Day_def)
  then show ?thesis using quarterStart_midnight [of t] by simp
qed

lemma generate_eq_computed:
  "generateRecentDistinctDates f N t =
     map (\<lambda>j. f (t - int j * msPerDay))
       [0 ..< nat (min N (Day t - Day (quarterStartDate t) + 1))]"
  by (simp add: generateRecentDistinctDates_def generate_loop_eq days_since_quarterStart)

lemma generate_nonpos: "N \<le> 0 \<Longrightarrow> generateRecentDistinctDates f N t = []"
  by (simp add: generateRecentDistinctDates_def)


lemma quarterStartMonth_eq: "0 \<le> m \<Longrightarrow> m \<le> 11 \<Longrightarrow> quarterStartMonth m = 3 * (m div 3)"
  unfolding quarterStartMonth_def by presburger

lemma quarterStart_calendar:
  assumes "fullYearDate t"
  shows "quarterStartDate t = calendarQuarterStart t"
proof -
  have "0 \<le> MonthFromTime t" "MonthFromTime t \<le> 11"
    using month_of_day_range by (simp_all add: MonthFromTime_def)
  then have "quarterStartMonth (MonthFromTime t) = 3 * (MonthFromTime t div 3)"
    by (rule quarterStartMonth_eq)
  with assms show ?thesis
    by (auto simp: fullYearDate_def quarterStartDate_def newDate_def calendarQuarterStart_def
        getFullYear_def getMonth_def Let_def)
qed

lemma generate_eq:
  "fullYearDate t \<Longrightarrow>
   generateRecentDistinctDates f N t =
     map (\<lambda>j. f (t - int j * msPerDay)) [0 ..< nat (min N (daysIntoQuarter t))]"
  by (simp add: generate_eq_computed quarterStart_calendar daysIntoQuarter_def)

lemma length_generate:
  "fullYearDate t \<Longrightarrow>
   length (generateRecentDistinctDates f N t) = nat (min N (daysIntoQuarter t))"
  by (simp add: generate_eq)




lemma daysIntoQuarter_pos: "fullYearDate t \<Longrightarrow> 1 \<le> daysIntoQuarter t"
  using quarterStart_le(2) [of t]
  by (simp add: daysIntoQuarter_def fullYearDate_def quarterStart_calendar [symmetric])

lemma calendarQuarterStart_fields:
  assumes "fullYearDate t"
  shows "getFullYear (calendarQuarterStart t) = getFullYear t"
    and "getMonth (calendarQuarterStart t) = 3 * (getMonth t div 3)"
    and "getDate (calendarQuarterStart t) = 1"
    and "TimeWithinDay (calendarQuarterStart t) = 0"
    and "calendarQuarterStart t \<le> t"
proof -
  have n: "\<not> (0 \<le> getFullYear t \<and> getFullYear t \<le> 99)"
    using assms by (simp add: fullYearDate_def)
  have q: "quarterStartDate t = calendarQuarterStart t" using assms by (rule quarterStart_calendar)
  have "0 \<le> getMonth t" "getMonth t \<le> 11"
    using month_of_day_range by (simp_all add: getMonth_def MonthFromTime_def)
  then have m: "quarterStartMonth (getMonth t) = 3 * (getMonth t div 3)"
    by (rule quarterStartMonth_eq)
  show "getFullYear (calendarQuarterStart t) = getFullYear t"
    using quarterStart_fields(1) [OF n] by (simp add: q)
  show "getMonth (calendarQuarterStart t) = 3 * (getMonth t div 3)"
    using quarterStart_fields(2) [OF n] by (simp add: q m)
  show "getDate (calendarQuarterStart t) = 1"
    using quarterStart_fields(3) [OF n] by (simp add: q)
  show "TimeWithinDay (calendarQuarterStart t) = 0"
    using quarterStart_fields(4) [OF n] by (simp add: q)
  show "calendarQuarterStart t \<le> t"
    using quarterStart_le(1) [OF n] by (simp add: q)
qed

subsection \<open>Rows and the loop over the tracker\<close>

lemma stats_cols:
  "STATS_COL_PERSON_ID - 1 = 0" "STATS_COL_FIRST_NAME - 1 = 2" "STATS_COL_LAST_NAME - 1 = 3"
  "STATS_COL_QUARTER_EVENTS - 1 = 4" "STATS_COL_ACTIVITY_SCORE - 1 = 11"
  "STATS_COL_PERSON_ID - Suc 0 = 0" "STATS_COL_FIRST_NAME - Suc 0 = 2"
  "STATS_COL_LAST_NAME - Suc 0 = 3" "STATS_COL_QUARTER_EVENTS - Suc 0 = 4"
  "STATS_COL_ACTIVITY_SCORE - Suc 0 = 11"
  by (simp_all add: STATS_COL_PERSON_ID_def STATS_COL_FIRST_NAME_def STATS_COL_LAST_NAME_def
      STATS_COL_QUARTER_EVENTS_def STATS_COL_ACTIVITY_SCORE_def)

lemma uat_cols:
  "UAT_COL_ID - 1 = 0" "UAT_COL_FULL_NAME - 1 = 1" "UAT_COL_LAST_NAME - 1 = 2"
  "UAT_COL_FIRST_NAME - 1 = 3" "UAT_COL_ACTIVITY_LEVEL - 1 = 4"
  "UAT_COL_ID - Suc 0 = 0" "UAT_COL_FULL_NAME - Suc 0 = 1" "UAT_COL_LAST_NAME - Suc 0 = 2"
  "UAT_COL_FIRST_NAME - Suc 0 = 3" "UAT_COL_ACTIVITY_LEVEL - Suc 0 = 4"
  by (simp_all add: UAT_COL_ID_def UAT_COL_FULL_NAME_def UAT_COL_LAST_NAME_def
      UAT_COL_FIRST_NAME_def UAT_COL_ACTIVITY_LEVEL_def)

lemma newEventAttendanceRow_eq:
  "newEventAttendanceRow pid full fnm lnm exec c d =
     [pid, full, Str (''BASELINE ADJUSTMENT '' @ show_nat c), Null, fnm, lnm,
      Null, Null, Null, Null, Str d, Null, Null, Str exec]"
  by (simp add: newEventAttendanceRow_def numeral_eq_Suc)

lemma buildRows_eq:
  "buildRows pid full fnm lnm exec ds c acc =
     acc @ map (\<lambda>i. newEventAttendanceRow pid full fnm lnm exec (c + i) (ds ! i)) [0..<length ds]"
proof (induction ds arbitrary: c acc)
  case Nil
  then show ?case by simp
next
  case (Cons d ds)
  let ?F = "\<lambda>i. newEventAttendanceRow pid full fnm lnm exec (c + i) ((d # ds) ! i)"
  have "[0..<length (d # ds)] = 0 # map Suc [0..<length ds]"
    by (simp add: upt_conv_Cons map_Suc_upt del: upt_Suc)
  then have "map ?F [0..<length (d # ds)] = ?F 0 # map (\<lambda>i. ?F (Suc i)) [0..<length ds]"
    by (simp add: comp_def)
  then show ?case by (simp add: Cons.IH)
qed

lemma length_buildRows: "length (buildRows pid full fnm lnm exec ds c acc) = length acc + length ds"
  by (simp add: buildRows_eq)

lemma length_rowsForEventAttendance:
  "fullYearDate today \<Longrightarrow>
   length (rowsForEventAttendance f today uatRow k) = nat (min k (daysIntoQuarter today))"
  by (simp add: rowsForEventAttendance_def Let_def length_buildRows length_generate)

lemma rowsForEventAttendance_nonpos: "k \<le> 0 \<Longrightarrow> rowsForEventAttendance f today uatRow k = []"
  by (simp add: rowsForEventAttendance_def Let_def generate_nonpos)

lemma processRow_complete:
  assumes "completeRow uatRow"
  shows "processRow f today statsData st uatRow =
     (case scoreFor statsData uatRow of
        None \<Rightarrow> st\<lparr>recordsToProcessCount := recordsToProcessCount st + 1,
                   recordsSkippedOrFailed := recordsSkippedOrFailed st @ [unknownLevelDetail uatRow]\<rparr>
      | Some k \<Rightarrow>
          (let rows = rowsForEventAttendance f today uatRow k
           in if rows = [] then st\<lparr>recordsToProcessCount := recordsToProcessCount st + 1\<rparr>
              else st\<lparr>recordsToProcessCount := recordsToProcessCount st + 1,
                      eventAttendanceSheet := eventAttendanceSheet st @ rows,
                      eventAttendancesLogged := eventAttendancesLogged st + length rows\<rparr>))"
proof (cases "scoreFor statsData uatRow")
  case None
  with assms show ?thesis by (simp add: processRow_def completeRow_def Let_def)
next
  case (Some k)
  show ?thesis
  proof (cases "0 < k")
    case True
    with assms Some show ?thesis by (simp add: processRow_def completeRow_def Let_def)
  next
    case False
    then have "rowsForEventAttendance f today uatRow k = []"
      by (simp add: rowsForEventAttendance_nonpos)
    with assms Some False show ?thesis by (simp add: processRow_def completeRow_def Let_def)
  qed
qed

lemma processRow_incomplete:
  assumes "\<not> completeRow uatRow"
  shows "eventAttendanceSheet (processRow f today statsData st uatRow) = eventAttendanceSheet st"
    and "statsSheet (processRow f today statsData st uatRow) = statsSheet st"
    and "recordsSkippedOrFailed (processRow f today statsData st uatRow) = recordsSkippedOrFailed st"
  using assms by (auto simp: processRow_def completeRow_def Let_def)

lemma processRow_statsSheet: "statsSheet (processRow f today statsData st uatRow) = statsSheet st"
proof (cases "completeRow uatRow")
  case True
  then show ?thesis
    by (simp add: processRow_complete Let_def split: option.split)
next
  case False
  then show ?thesis by (rule processRow_incomplete)
qed

lemma processRow_sheet:
  "eventAttendanceSheet (processRow f today statsData st uatRow) =
     eventAttendanceSheet st @ loggedRows f today statsData uatRow"
proof (cases "completeRow uatRow")
  case True
  then show ?thesis
    by (simp add: loggedRows_def processRow_complete Let_def split: option.split)
next
  case False
  then show ?thesis by (simp add: loggedRows_def processRow_incomplete)
qed

lemma loggedRows_complete:
  assumes "completeRow uatRow"
  shows "loggedRows f today statsData uatRow =
     (case scoreFor statsData uatRow of None \<Rightarrow> []
      | Some k \<Rightarrow> rowsForEventAttendance f today uatRow k)"
  using assms by (simp add: loggedRows_def processRow_complete Let_def split: option.split)

lemma processRows_statsSheet: "statsSheet (processRows f today statsData st uatData) = statsSheet st"
  by (induction uatData arbitrary: st) (simp_all add: processRow_statsSheet)

lemma processRows_sheet:
  "eventAttendanceSheet (processRows f today statsData st uatData) =
     eventAttendanceSheet st @ concat (map (loggedRows f today statsData) uatData)"
  by (induction uatData arbitrary: st) (simp_all add: processRow_sheet)

lemma processRow_skipped_prefix:
  "\<exists>more. recordsSkippedOrFailed (processRow f today statsData st uatRow)
           = recordsSkippedOrFailed st @ more"
proof (cases "completeRow uatRow")
  case True
  then show ?thesis
    by (simp add: processRow_complete Let_def split: option.split)
next
  case False
  then show ?thesis by (simp add: processRow_incomplete)
qed

lemma processRows_skipped_prefix:
  "\<exists>more. recordsSkippedOrFailed (processRows f today statsData st uatData)
           = recordsSkippedOrFailed st @ more"
proof (induction uatData arbitrary: st)
  case Nil
  then show ?case by simp
next
  case (Cons r rs)
  obtain m1 where "recordsSkippedOrFailed (processRow f today statsData st r)
                     = recordsSkippedOrFailed st @ m1"
    using processRow_skipped_prefix by blast
  moreover obtain m2 where
    "recordsSkippedOrFailed (processRows f today statsData (processRow f today statsData st r) rs)
       = recordsSkippedOrFailed (processRow f today statsData st r) @ m2"
    using Cons.IH by blast
  ultimately show ?case by simp
qed

lemma unknown_level_None:
  "newCalculatedScoreK lvl E K = None \<longleftrightarrow> lvl \<noteq> ''inactive'' \<and> lvl \<noteq> ''active'' \<and> lvl \<noteq> ''core''"
  by (simp add: newCalculatedScoreK_def)

lemma scoreFor_None:
  "scoreFor statsData uatRow = None \<longleftrightarrow>
     toLowerCase (trim (String (at uatRow (UAT_COL_ACTIVITY_LEVEL - 1)))) \<notin> {''inactive'', ''active'', ''core''}"
  by (simp add: scoreFor_def Let_def unknown_level_None split: prod.split)

lemma currentStats_find:
  "currentStats statsData p f l =
     (case find (\<lambda>r. rowMatches r p f l) statsData of
        None \<Rightarrow> (0, 0)
      | Some r \<Rightarrow> (intOrZero (at r (STATS_COL_QUARTER_EVENTS - 1)),
                  intOrZero (at r (STATS_COL_ACTIVITY_SCORE - 1))))"
  by (induction statsData) simp_all

lemma currentStats_no_match:
  "(\<forall>r \<in> set statsData. \<not> rowMatches r p f l) \<Longrightarrow> currentStats statsData p f l = (0, 0)"
  by (induction statsData) simp_all

lemma scoreFor_nonneg: "scoreFor statsData uatRow = Some k \<Longrightarrow> 0 \<le> k"
  by (auto simp: scoreFor_def newCalculatedScoreK_def activeScore_def CORE_K_MIN_VALUE_def Let_def
      split: prod.splits if_splits)

lemma activeScore_eq: "activeScore E K = max 0 (min 11 (max 3 (E + (K + 3))) - E)"
  by (simp add: activeScore_def TARGET_SUM_ACTIVE_MIN_def TARGET_SUM_ACTIVE_MAX_def Let_def)

subsection \<open>The quarter of the emitted dates\<close>





subsection \<open>Formatted dates\<close>













subsection \<open>The dates returned\<close>






subsection \<open>White space, letters and digits\<close>

lemma isWhiteSpace_codes:
  "isWhiteSpace = (\<lambda>ch. (of_char ch :: nat) \<in> {9, 10, 11, 12, 13, 32, 160})"
proof
  fix ch
  show "isWhiteSpace ch = ((of_char ch :: nat) \<in> {9, 10, 11, 12, 13, 32, 160})"
    by (auto simp: isWhiteSpace_def Let_def)
qed

lemma isDigit_codes: "isDigit ch = (48 \<le> (of_char ch :: nat) \<and> (of_char ch :: nat) \<le> 57)"
  by (simp add: isDigit_def Let_def)

lemma dropWhile_stop: "xs \<noteq> [] \<Longrightarrow> \<not> P (hd xs) \<Longrightarrow> dropWhile P xs = xs"
  by (cases xs) auto

lemma trim_padded:
  assumes "\<forall>ch \<in> set ws. isWhiteSpace ch" and "\<forall>ch \<in> set ws'. isWhiteSpace ch"
    and "s = [] \<or> (\<not> isWhiteSpace (hd s) \<and> \<not> isWhiteSpace (last s))"
  shows "trim (ws @ s @ ws') = s"
proof (cases "s = []")
  case True
  have d: "dropWhile isWhiteSpace (ws @ ws') = []"
    using assms(1,2) by (auto simp: dropWhile_eq_Nil_conv)
  have "trim (ws @ ws') = []" unfolding trim_def d by simp
  with True show ?thesis by simp
next
  case False
  with assms(3) have h: "\<not> isWhiteSpace (hd s)" and l: "\<not> isWhiteSpace (last s)" by simp_all
  have 1: "dropWhile isWhiteSpace (ws @ s @ ws') = s @ ws'"
    using assms(1) h False by (simp add: dropWhile_append2) (cases s; simp)
  have "rev (s @ ws') = rev ws' @ rev s" by simp
  moreover have "dropWhile isWhiteSpace (rev ws' @ rev s) = rev s"
  proof -
    have "dropWhile isWhiteSpace (rev ws' @ rev s) = dropWhile isWhiteSpace (rev s)"
      by (rule dropWhile_append2) (use assms(2) in simp)
    moreover have "dropWhile isWhiteSpace (rev s) = rev s"
    proof (rule dropWhile_stop)
      show "rev s \<noteq> []" using False by simp
      show "\<not> isWhiteSpace (hd (rev s))" using l False by (simp add: hd_rev)
    qed
    ultimately show ?thesis by simp
  qed
  ultimately show ?thesis by (simp add: trim_def 1)
qed

lemma parseInt10_None_iff:
  "parseInt10 s = None \<longleftrightarrow>
     (let S = dropWhile isWhiteSpace s;
          S' = (if S \<noteq> [] \<and> (hd S = CHR ''+'' \<or> hd S = CHR ''-'') then tl S else S)
      in S' = [] \<or> \<not> isDigit (hd S'))"
proof -
  have "takeWhile isDigit Z = [] \<longleftrightarrow> Z = [] \<or> \<not> isDigit (hd Z)" for Z
    by (cases Z) auto
  then show ?thesis by (simp add: parseInt10_def trimStart_def Let_def)
qed

lemma takeWhile_digits_rest:
  assumes "rest = [] \<or> \<not> isDigit (hd rest)"
  shows "takeWhile isDigit (show_nat n @ rest) = show_nat n"
proof -
  have "takeWhile isDigit rest = []" using assms by (cases rest) auto
  moreover have "\<And>x. x \<in> set (show_nat n) \<Longrightarrow> isDigit x" using show_nat_digits by blast
  ultimately show ?thesis by (simp add: takeWhile_append2)
qed

lemma parseInt10_padded:
  assumes "\<forall>ch \<in> set ws. isWhiteSpace ch" and "rest = [] \<or> \<not> isDigit (hd rest)"
  shows "parseInt10 (ws @ show_int i @ rest) = Some i"
proof -
  define m where "m = (if i < 0 then nat (- i) else nat i)"
  obtain c cs where s: "show_nat m = c # cs"
    using show_nat_digits [of m] by (cases "show_nat m") auto
  have c: "isDigit c" using hd_show_nat [of m] s by simp
  then have n: "\<not> isWhiteSpace c" "c \<noteq> CHR ''-''" "c \<noteq> CHR ''+''"
    using isDigit_not_others by blast+
  have w: "\<not> isWhiteSpace CHR ''-''" by (simp add: isWhiteSpace_def)
  have tw: "takeWhile isDigit (show_nat m @ rest) = show_nat m"
    using assms(2) by (rule takeWhile_digits_rest)
  have dv: "digitsValue (show_nat m) = m" by (rule digitsValue_show_nat)
  have tw': "takeWhile isDigit (c # cs @ rest) = c # cs" using tw by (simp add: s)
  have dv': "digitsValue (c # cs) = m" using dv by (simp add: s)
  show ?thesis
  proof (cases "i < 0")
    case True
    then have "show_int i = CHR ''-'' # show_nat m" by (simp add: show_int_def m_def)
    then have e: "show_int i = CHR ''-'' # c # cs" by (simp add: s)
    have v: "- int m = i" using True by (simp add: m_def)
    have t: "trimStart (ws @ show_int i @ rest) = CHR ''-'' # c # cs @ rest"
      using assms(1) w by (simp add: trimStart_def dropWhile_append2 e)
    show ?thesis unfolding parseInt10_def t using v
      by (simp add: Let_def tw' dv' del: takeWhile.simps)
  next
    case False
    then have "show_int i = show_nat m" by (simp add: show_int_def m_def)
    then have e: "show_int i = c # cs" by (simp add: s)
    have v: "int m = i" using False by (simp add: m_def)
    have t: "trimStart (ws @ show_int i @ rest) = c # cs @ rest"
      using assms(1) n by (simp add: trimStart_def dropWhile_append2 e)
    show ?thesis unfolding parseInt10_def t using v n
      by (simp add: Let_def tw' dv' del: takeWhile.simps)
  qed
qed

subsection \<open>The loop as a whole\<close>

lemma processRows_append:
  "processRows f today statsData st (xs @ ys) =
     processRows f today statsData (processRows f today statsData st xs) ys"
  by (induction xs arbitrary: st) simp_all

lemma unknownLevelDetail_eq:
  "unknownLevelDetail uatRow =
     String (at uatRow 3) @ '' '' @ String (at uatRow 2) @ '' (ID: '' @ String (at uatRow 0)
       @ '') - Unknown Level''"
  unfolding unknownLevelDetail_def uat_cols by (rule refl)

lemma processRow_skipped:
  "recordsSkippedOrFailed (processRow f today statsData st uatRow) =
     recordsSkippedOrFailed st @
       (if completeRow uatRow \<and> scoreFor statsData uatRow = None
        then [unknownLevelDetail uatRow] else [])"
proof (cases "completeRow uatRow")
  case True
  then show ?thesis by (simp add: processRow_complete Let_def split: option.split)
next
  case False
  then show ?thesis by (simp add: processRow_incomplete)
qed

lemma processRows_skipped:
  "recordsSkippedOrFailed (processRows f today statsData st uatData) =
     recordsSkippedOrFailed st @
       map unknownLevelDetail
         (filter (\<lambda>r. completeRow r \<and> scoreFor statsData r = None) uatData)"
  by (induction uatData arbitrary: st) (simp_all add: processRow_skipped)

lemma processRow_count:
  "recordsToProcessCount (processRow f today statsData st uatRow) =
     recordsToProcessCount st + (if completeRow uatRow then 1 else 0)"
proof (cases "completeRow uatRow")
  case True
  then show ?thesis by (simp add: processRow_complete Let_def split: option.split)
next
  case False
  then show ?thesis by (auto simp: processRow_def completeRow_def Let_def)
qed

lemma processRows_count:
  "recordsToProcessCount (processRows f today statsData st uatData) =
     recordsToProcessCount st + length (filter completeRow uatData)"
  by (induction uatData arbitrary: st) (simp_all add: processRow_count)

lemma readable_Undefined: "readable Undefined"
  by code_simp

lemma readable_at: "rowInRange row \<Longrightarrow> readable (at row i)"
  by (simp add: rowInRange_def at_def list_all_length readable_Undefined)

lemma parseInt10_plus:
  assumes "\<forall>ch \<in> set ws. isWhiteSpace ch" and "rest = [] \<or> \<not> isDigit (hd rest)"
  shows "parseInt10 (ws @ CHR ''+'' # show_nat m @ rest) = Some (int m)"
proof -
  obtain c cs where s: "show_nat m = c # cs"
    using show_nat_digits [of m] by (cases "show_nat m") auto
  have w: "\<not> isWhiteSpace CHR ''+''" by (simp add: isWhiteSpace_def)
  have tw: "takeWhile isDigit (show_nat m @ rest) = show_nat m"
    using assms(2) by (rule takeWhile_digits_rest)
  have dv: "digitsValue (show_nat m) = m" by (rule digitsValue_show_nat)
  have tw': "takeWhile isDigit (c # cs @ rest) = c # cs" using tw by (simp add: s)
  have dv': "digitsValue (c # cs) = m" using dv by (simp add: s)
  have t: "trimStart (ws @ CHR ''+'' # show_nat m @ rest) = CHR ''+'' # c # cs @ rest"
    using assms(1) w by (simp add: trimStart_def dropWhile_append2 s)
  show ?thesis unfolding parseInt10_def t
    by (simp add: Let_def tw' dv' del: takeWhile.simps)
qed

lemma show_int_nonneg: "0 \<le> n \<Longrightarrow> show_int n = show_nat (nat n)"
  by (simp add: show_int_def)

lemma parseInt10_None_codes:
  "parseInt10 s = None \<longleftrightarrow>
     (let S = dropWhile (\<lambda>ch. (of_char ch :: nat) \<in> {9, 10, 11, 12, 13, 32, 160}) s;
          S' = (if S \<noteq> [] \<and> (hd S = CHR ''+'' \<or> hd S = CHR ''-'') then tl S else S)
      in S' = [] \<or> \<not> (48 \<le> (of_char (hd S') :: nat) \<and> (of_char (hd S') :: nat) \<le> 57))"
  unfolding parseInt10_None_iff isWhiteSpace_codes isDigit_codes by (rule refl)

lemma toLowerCase_codes:
  "toLowerCase s =
     map (\<lambda>ch. if (65 \<le> (of_char ch :: nat) \<and> (of_char ch :: nat) \<le> 90)
                  \<or> (192 \<le> (of_char ch :: nat) \<and> (of_char ch :: nat) \<le> 222
                      \<and> (of_char ch :: nat) \<noteq> 215)
               then char_of ((of_char ch :: nat) + 32) else ch) s"
  by (simp add: toLowerCase_def toLowerChar_def Let_def)

lemma currentStats_matched:
  "rowMatches r p fnm lnm \<Longrightarrow>
   currentStats (r # others) p fnm lnm = (intOrZero (at r 4), intOrZero (at r 11))"
  by (simp add: stats_cols)

lemma scoreFor_no_match:
  assumes "\<forall>r \<in> set statsData. \<not> rowMatches r (at uatRow 0) (at uatRow 3) (at uatRow 2)"
  shows "scoreFor statsData uatRow
          = newCalculatedScoreK (toLowerCase (trim (String (at uatRow 4)))) 0 0"
proof -
  have "currentStats statsData (at uatRow 0) (at uatRow 3) (at uatRow 2) = (0, 0)"
    using assms by (rule currentStats_no_match)
  then show ?thesis unfolding scoreFor_def uat_cols Let_def by simp
qed

lemma scoreFor_None_level:
  "scoreFor statsData r = None \<longleftrightarrow>
     toLowerCase (trim (String (at r 4))) \<notin> {''inactive'', ''active'', ''core''}"
  using scoreFor_None [of statsData r] unfolding uat_cols .

section \<open>Claims\<close>

text \<open>
  C1. For the level \<^verbatim>\<open>active\<close> the new score is
  \<open>max 0 (clamp (E + (K + 3)) - E)\<close>, where the clamp raises a total below 3 to 3 and
  lowers a total above 11 to 11. For \<open>E \<ge> 0\<close> and \<open>K \<ge> 0\<close> the score lies between 0
  and \<open>11 - E\<close> when \<open>E \<le> 11\<close>, and is 0 when \<open>E > 11\<close>.
\<close>

theorem C1_active_score:
  "newCalculatedScoreK ''active'' E K =
     Some (max 0 ((let t = E + (K + 3) in if t < 3 then 3 else if 11 < t then 11 else t) - E))
   \<and> (0 \<le> E \<and> 0 \<le> K \<longrightarrow>
        (E \<le> 11 \<longrightarrow> (\<exists>r. newCalculatedScoreK ''active'' E K = Some r \<and> 0 \<le> r \<and> r \<le> 11 - E))
      \<and> (11 < E \<longrightarrow> newCalculatedScoreK ''active'' E K = Some 0))"
  by (simp add: newCalculatedScoreK_def activeScore_def TARGET_SUM_ACTIVE_MIN_def
      TARGET_SUM_ACTIVE_MAX_def Let_def)

theorem C1_active_score_witness:
  "(0::int) \<le> 5 \<and> (0::int) \<le> 0 \<and> (5::int) \<le> 11
   \<and> newCalculatedScoreK ''active'' 5 0 = Some 3
   \<and> (0::int) \<le> 15 \<and> (11::int) < 15
   \<and> newCalculatedScoreK ''active'' 15 0 = Some 0"
  using C1_active_score [of 5 0] C1_active_score [of 15 0] by simp

text \<open>
  C2 (amended). For a tracker row with identity whose level gives the score \<open>K'\<close>, in a
  run (its time lies in a year that is not one of 0 to 99), the number of rows added to the
  Event Attendance tab is the smaller of \<open>K'\<close> and \<open>D\<close>, the number of days from the start
  of the current calendar quarter to the day of the run, both included. So it never exceeds
  \<open>K'\<close>, never exceeds \<open>D\<close>, and equals \<open>K'\<close> exactly when \<open>K'\<close> is at most \<open>D\<close>. The
  rows are appended to the tab and counted in the tally of logged events.
\<close>

theorem C2_rows_logged:
  assumes "completeRow uatRow" and "fullYearDate today"
    and "scoreFor statsData uatRow = Some k"
  shows "int (length (loggedRows f today statsData uatRow)) = min k (daysIntoQuarter today)
       \<and> daysIntoQuarter today =
           Day today - Day (MakeDate (MakeDay (getFullYear today) (3 * (getMonth today div 3)) 1) 0) + 1
       \<and> 1 \<le> daysIntoQuarter today
       \<and> int (length (loggedRows f today statsData uatRow)) \<le> k
       \<and> int (length (loggedRows f today statsData uatRow)) \<le> daysIntoQuarter today
       \<and> (int (length (loggedRows f today statsData uatRow)) = k \<longleftrightarrow> k \<le> daysIntoQuarter today)
       \<and> loggedRows f today statsData uatRow = rowsForEventAttendance f today uatRow k
       \<and> eventAttendanceSheet (processRow f today statsData st uatRow)
           = eventAttendanceSheet st @ loggedRows f today statsData uatRow
       \<and> eventAttendancesLogged (processRow f today statsData st uatRow)
           = eventAttendancesLogged st + length (loggedRows f today statsData uatRow)"
proof -
  have k0: "0 \<le> k" using assms(3) by (rule scoreFor_nonneg)
  have d1: "1 \<le> daysIntoQuarter today" using assms(2) by (rule daysIntoQuarter_pos)
  have rows: "loggedRows f today statsData uatRow = rowsForEventAttendance f today uatRow k"
    using assms(1,3) by (simp add: loggedRows_complete)
  have "length (loggedRows f today statsData uatRow) = nat (min k (daysIntoQuarter today))"
    unfolding rows using assms(2) by (rule length_rowsForEventAttendance)
  then have len: "int (length (loggedRows f today statsData uatRow)) = min k (daysIntoQuarter today)"
    using k0 d1 by simp
  have dq: "daysIntoQuarter today =
           Day today - Day (MakeDate (MakeDay (getFullYear today) (3 * (getMonth today div 3)) 1) 0) + 1"
    by (simp add: daysIntoQuarter_def calendarQuarterStart_def getFullYear_def getMonth_def)
  have b1: "int (length (loggedRows f today statsData uatRow)) \<le> k" unfolding len by simp
  have b2: "int (length (loggedRows f today statsData uatRow)) \<le> daysIntoQuarter today"
    unfolding len by simp
  have b3: "int (length (loggedRows f today statsData uatRow)) = k \<longleftrightarrow> k \<le> daysIntoQuarter today"
    unfolding len by auto
  have sheet: "eventAttendanceSheet (processRow f today statsData st uatRow)
           = eventAttendanceSheet st @ loggedRows f today statsData uatRow"
    by (rule processRow_sheet)
  have logged: "eventAttendancesLogged (processRow f today statsData st uatRow)
           = eventAttendancesLogged st + length (loggedRows f today statsData uatRow)"
    using assms(1,3)
    by (simp add: loggedRows_complete processRow_complete Let_def)
  from len dq d1 b1 b2 b3 rows sheet logged show ?thesis by blast
qed

theorem C2_rows_logged_witness:
  "completeRow (examplePerson '' Active '')
   \<and> fullYearDate 1775296800000
   \<and> scoreFor exampleStats (examplePerson '' Active '') = Some 3
   \<and> daysIntoQuarter 1775296800000 = 4
   \<and> length (loggedRows formatMdyyyy 1775296800000 exampleStats (examplePerson '' Active '')) = 3
   \<and> eventAttendancesLogged
        (processRow formatMdyyyy 1775296800000 exampleStats (emptyTally exampleStats [])
           (examplePerson '' Active '')) = 3"
proof -
  have c: "completeRow (examplePerson '' Active '')" by code_simp
  have fy: "fullYearDate 1775296800000" by code_simp
  have s: "scoreFor exampleStats (examplePerson '' Active '') = Some 3" by code_simp
  have d: "daysIntoQuarter 1775296800000 = 4" by code_simp
  note w = C2_rows_logged [OF c fy s, of formatMdyyyy "emptyTally exampleStats []"]
  from w have "int (length (loggedRows formatMdyyyy 1775296800000 exampleStats
      (examplePerson '' Active ''))) = min 3 (daysIntoQuarter 1775296800000)" by blast
  then have l: "length (loggedRows formatMdyyyy 1775296800000 exampleStats
      (examplePerson '' Active '')) = 3" unfolding d by simp
  from w have "eventAttendancesLogged
        (processRow formatMdyyyy 1775296800000 exampleStats (emptyTally exampleStats [])
           (examplePerson '' Active ''))
      = eventAttendancesLogged (emptyTally exampleStats [])
        + length (loggedRows formatMdyyyy 1775296800000 exampleStats (examplePerson '' Active ''))"
    by blast
  then have e: "eventAttendancesLogged
        (processRow formatMdyyyy 1775296800000 exampleStats (emptyTally exampleStats [])
           (examplePerson '' Active '')) = 3" by (simp add: l emptyTally_def)
  from c fy s d l e show ?thesis by blast
qed

text \<open>
  C2, as stated, fails: on 1 April 2026, the first day of a quarter, a person of level
  \<^verbatim>\<open>Core\<close> has the score 12 and gets one row.
\<close>

theorem C2_rows_equal_score_counterexample:
  "formatMdyyyy 1775037600000 = ''4/1/2026''
   \<and> completeRow (examplePerson ''Core'')
   \<and> scoreFor exampleStats (examplePerson ''Core'') = Some 12
   \<and> length (loggedRows formatMdyyyy 1775037600000 exampleStats (examplePerson ''Core'')) = 1"
  by code_simp



text \<open>
  C4. The level \<^verbatim>\<open>inactive\<close> gives the score 1 and the level \<^verbatim>\<open>core\<close> the score 12,
  whatever the event count and the current score are, and so whatever the statistics tab
  holds for the person.
\<close>

theorem C4_inactive_core_fixed:
  "newCalculatedScoreK ''inactive'' E K = Some 1
   \<and> newCalculatedScoreK ''core'' E K = Some 12
   \<and> (toLowerCase (trim (String (at uatRow 4))) = ''inactive'' \<longrightarrow>
        scoreFor statsData uatRow = Some 1)
   \<and> (toLowerCase (trim (String (at uatRow 4))) = ''core'' \<longrightarrow>
        scoreFor statsData uatRow = Some 12)"
proof -
  have a: "newCalculatedScoreK ''inactive'' E K = Some 1"
    by (simp add: newCalculatedScoreK_def)
  have b: "newCalculatedScoreK ''core'' E K = Some 12"
    by (simp add: newCalculatedScoreK_def CORE_K_MIN_VALUE_def)
  have c: "toLowerCase (trim (String (at uatRow 4))) = ''inactive'' \<longrightarrow>
        scoreFor statsData uatRow = Some 1"
    unfolding scoreFor_def uat_cols Let_def
    by (simp add: newCalculatedScoreK_def split: prod.split)
  have d: "toLowerCase (trim (String (at uatRow 4))) = ''core'' \<longrightarrow>
        scoreFor statsData uatRow = Some 12"
    unfolding scoreFor_def uat_cols Let_def
    by (simp add: newCalculatedScoreK_def CORE_K_MIN_VALUE_def split: prod.split)
  from a b c d show ?thesis by blast
qed

theorem C4_inactive_core_fixed_witness:
  "currentStats [garbageStats] (Num 7) (Str ''Ann'') (Str ''Lee'') = (0, - 40)
   \<and> toLowerCase (trim (String (at (examplePerson ''INACTIVE '') 4))) = ''inactive''
   \<and> scoreFor [garbageStats] (examplePerson ''INACTIVE '') = Some 1
   \<and> toLowerCase (trim (String (at (examplePerson ''Core'') 4))) = ''core''
   \<and> scoreFor [garbageStats] (examplePerson ''Core'') = Some 12"
proof -
  have g: "currentStats [garbageStats] (Num 7) (Str ''Ann'') (Str ''Lee'') = (0, - 40)"
    by code_simp
  have i: "toLowerCase (trim (String (at (examplePerson ''INACTIVE '') 4))) = ''inactive''"
    by code_simp
  have c: "toLowerCase (trim (String (at (examplePerson ''Core'') 4))) = ''core''"
    by code_simp
  from C4_inactive_core_fixed [of 0 "- 40" "examplePerson ''INACTIVE ''" "[garbageStats]"] i
  have si: "scoreFor [garbageStats] (examplePerson ''INACTIVE '') = Some 1" by blast
  from C4_inactive_core_fixed [of 0 "- 40" "examplePerson ''Core''" "[garbageStats]"] c
  have sc: "scoreFor [garbageStats] (examplePerson ''Core'') = Some 12" by blast
  from g i si c sc show ?thesis by blast
qed

text \<open>
  C5. Take a tracker row with identity whose level, trimmed (the white space at both ends
  removed) and in lower case (every capital letter replaced by its small letter), is none of
  \<^verbatim>\<open>inactive\<close>, \<^verbatim>\<open>active\<close> and \<^verbatim>\<open>core\<close>, anywhere among the rows of a run. No score is
  computed for it and no row is added to the Event Attendance tab for it. The row is
  counted, and the text made of its first name, its last name and its ID, followed by
  \<^verbatim>\<open>- Unknown Level\<close>, is added to the list of skipped records. The loop then goes on with
  the rows after it: the tab at the end of the run holds the rows of all the other tracker
  rows, those before and those after, in order, each row with a score giving the rows
  built for that score; the list of skipped records holds the entries of the rows of
  unknown level in order, this one between those before and those after; and the rows
  with identity after it are counted as well.
\<close>

theorem C5_unknown_level_skipped:
  assumes "completeRow uatRow"
    and "toLowerCase (trim (String (at uatRow 4))) \<notin> {''inactive'', ''active'', ''core''}"
    and "rowInRange uatRow"
  shows "scoreFor statsData uatRow = None
   \<and> loggedRows f today statsData uatRow = []
   \<and> processRow f today statsData st uatRow =
       st\<lparr>recordsToProcessCount := recordsToProcessCount st + 1,
          recordsSkippedOrFailed := recordsSkippedOrFailed st @
            [String (at uatRow 3) @ '' '' @ String (at uatRow 2) @ '' (ID: ''
               @ String (at uatRow 0) @ '') - Unknown Level'']\<rparr>
   \<and> processRows f today statsData st (before @ uatRow # rest) =
       processRows f today statsData
         (processRow f today statsData (processRows f today statsData st before) uatRow) rest
   \<and> eventAttendanceSheet (processRows f today statsData st (before @ uatRow # rest)) =
       eventAttendanceSheet st @ concat (map (loggedRows f today statsData) before)
         @ concat (map (loggedRows f today statsData) rest)
   \<and> (\<forall>r \<in> set (before @ rest). completeRow r \<longrightarrow>
         loggedRows f today statsData r =
           (case scoreFor statsData r of None \<Rightarrow> []
            | Some k \<Rightarrow> rowsForEventAttendance f today r k))
   \<and> recordsSkippedOrFailed (processRows f today statsData st (before @ uatRow # rest)) =
       recordsSkippedOrFailed st
       @ map (\<lambda>r. String (at r 3) @ '' '' @ String (at r 2) @ '' (ID: '' @ String (at r 0)
                   @ '') - Unknown Level'')
           (filter (\<lambda>r. completeRow r \<and> toLowerCase (trim (String (at r 4)))
                           \<notin> {''inactive'', ''active'', ''core''}) before)
       @ [String (at uatRow 3) @ '' '' @ String (at uatRow 2) @ '' (ID: ''
            @ String (at uatRow 0) @ '') - Unknown Level'']
       @ map (\<lambda>r. String (at r 3) @ '' '' @ String (at r 2) @ '' (ID: '' @ String (at r 0)
                   @ '') - Unknown Level'')
           (filter (\<lambda>r. completeRow r \<and> toLowerCase (trim (String (at r 4)))
                           \<notin> {''inactive'', ''active'', ''core''}) rest)
   \<and> recordsToProcessCount (processRows f today statsData st (before @ uatRow # rest)) =
       recordsToProcessCount st + length (filter completeRow before) + 1
         + length (filter completeRow rest)
   \<and> ((\<forall>ch \<in> set ws. (of_char ch :: nat) \<in> {9, 10, 11, 12, 13, 32, 160})
        \<and> (\<forall>ch \<in> set ws'. (of_char ch :: nat) \<in> {9, 10, 11, 12, 13, 32, 160})
        \<and> (s = [] \<or> ((of_char (hd s) :: nat) \<notin> {9, 10, 11, 12, 13, 32, 160}
                      \<and> (of_char (last s) :: nat) \<notin> {9, 10, 11, 12, 13, 32, 160})) \<longrightarrow>
          trim (ws @ s @ ws') = s)
   \<and> toLowerCase s =
       map (\<lambda>ch. if (65 \<le> (of_char ch :: nat) \<and> (of_char ch :: nat) \<le> 90)
                    \<or> (192 \<le> (of_char ch :: nat) \<and> (of_char ch :: nat) \<le> 222
                        \<and> (of_char ch :: nat) \<noteq> 215)
                 then char_of ((of_char ch :: nat) + 32) else ch) s"
proof -
  let ?D = "\<lambda>r. String (at r 3) @ '' '' @ String (at r 2) @ '' (ID: '' @ String (at r 0)
                   @ '') - Unknown Level''"
  let ?U = "\<lambda>r. completeRow r \<and> toLowerCase (trim (String (at r 4)))
                           \<notin> {''inactive'', ''active'', ''core''}"
  have D: "unknownLevelDetail = ?D" by (rule ext) (rule unknownLevelDetail_eq)
  have U: "(\<lambda>r. completeRow r \<and> scoreFor statsData r = None) = ?U"
    by (rule ext) (simp add: scoreFor_None_level)
  have none: "scoreFor statsData uatRow = None" using assms(2) by (simp add: scoreFor_None_level)
  have norows: "loggedRows f today statsData uatRow = []"
    using assms(1) none by (simp add: loggedRows_complete)
  have "processRow f today statsData st uatRow =
           st\<lparr>recordsToProcessCount := recordsToProcessCount st + 1,
              recordsSkippedOrFailed := recordsSkippedOrFailed st @ [unknownLevelDetail uatRow]\<rparr>"
    using assms(1) none by (simp add: processRow_complete)
  then have step: "processRow f today statsData st uatRow =
       st\<lparr>recordsToProcessCount := recordsToProcessCount st + 1,
          recordsSkippedOrFailed := recordsSkippedOrFailed st @ [?D uatRow]\<rparr>"
    unfolding D .
  have cont: "processRows f today statsData st (before @ uatRow # rest) =
       processRows f today statsData
         (processRow f today statsData (processRows f today statsData st before) uatRow) rest"
    by (simp add: processRows_append)
  have sheet: "eventAttendanceSheet (processRows f today statsData st (before @ uatRow # rest)) =
       eventAttendanceSheet st @ concat (map (loggedRows f today statsData) before)
         @ concat (map (loggedRows f today statsData) rest)"
    by (simp add: processRows_sheet norows)
  have others: "\<forall>r \<in> set (before @ rest). completeRow r \<longrightarrow>
         loggedRows f today statsData r =
           (case scoreFor statsData r of None \<Rightarrow> []
            | Some k \<Rightarrow> rowsForEventAttendance f today r k)"
    by (simp add: loggedRows_complete)
  have "recordsSkippedOrFailed (processRows f today statsData st (before @ uatRow # rest)) =
       recordsSkippedOrFailed st @ map unknownLevelDetail
         (filter (\<lambda>r. completeRow r \<and> scoreFor statsData r = None) (before @ uatRow # rest))"
    by (rule processRows_skipped)
  then have "recordsSkippedOrFailed (processRows f today statsData st (before @ uatRow # rest)) =
       recordsSkippedOrFailed st @ map ?D (filter ?U (before @ uatRow # rest))"
    unfolding D U .
  moreover have "filter ?U (before @ uatRow # rest) = filter ?U before @ uatRow # filter ?U rest"
    using assms(1,2) by simp
  ultimately have skipped:
    "recordsSkippedOrFailed (processRows f today statsData st (before @ uatRow # rest)) =
       recordsSkippedOrFailed st @ map ?D (filter ?U before) @ [?D uatRow] @ map ?D (filter ?U rest)"
    by simp
  have count: "recordsToProcessCount (processRows f today statsData st (before @ uatRow # rest)) =
       recordsToProcessCount st + length (filter completeRow before) + 1
         + length (filter completeRow rest)"
    using assms(1) by (simp add: processRows_count)
  have tr: "(\<forall>ch \<in> set ws. (of_char ch :: nat) \<in> {9, 10, 11, 12, 13, 32, 160})
        \<and> (\<forall>ch \<in> set ws'. (of_char ch :: nat) \<in> {9, 10, 11, 12, 13, 32, 160})
        \<and> (s = [] \<or> ((of_char (hd s) :: nat) \<notin> {9, 10, 11, 12, 13, 32, 160}
                      \<and> (of_char (last s) :: nat) \<notin> {9, 10, 11, 12, 13, 32, 160})) \<longrightarrow>
          trim (ws @ s @ ws') = s"
    using trim_padded [of ws ws' s] unfolding isWhiteSpace_codes by blast
  have lc: "toLowerCase s =
       map (\<lambda>ch. if (65 \<le> (of_char ch :: nat) \<and> (of_char ch :: nat) \<le> 90)
                    \<or> (192 \<le> (of_char ch :: nat) \<and> (of_char ch :: nat) \<le> 222
                        \<and> (of_char ch :: nat) \<noteq> 215)
                 then char_of ((of_char ch :: nat) + 32) else ch) s"
    by (rule toLowerCase_codes)
  from none norows step cont sheet others skipped count tr lc show ?thesis by blast
qed

theorem C5_unknown_level_skipped_witness:
  "completeRow (examplePerson ''Retired'')
   \<and> toLowerCase (trim (String (at (examplePerson ''Retired'') 4)))
        \<notin> {''inactive'', ''active'', ''core''}
   \<and> rowInRange (examplePerson ''Retired'')
   \<and> scoreFor exampleStats (examplePerson ''Retired'') = None
   \<and> recordsSkippedOrFailed
        (processRows formatMdyyyy 1775037600000 exampleStats (emptyTally exampleStats [])
           ([examplePerson ''Core''] @ examplePerson ''Retired'' # [examplePerson ''inactive'']))
       = [''Ann Lee (ID: 7) - Unknown Level'']
   \<and> recordsToProcessCount
        (processRows formatMdyyyy 1775037600000 exampleStats (emptyTally exampleStats [])
           ([examplePerson ''Core''] @ examplePerson ''Retired'' # [examplePerson ''inactive'']))
       = 3
   \<and> map (\<lambda>r. at r 2)
        (eventAttendanceSheet
          (processRows formatMdyyyy 1775037600000 exampleStats (emptyTally exampleStats [])
             ([examplePerson ''Core''] @ examplePerson ''Retired'' # [examplePerson ''inactive''])))
       = [Str ''BASELINE ADJUSTMENT 1'', Str ''BASELINE ADJUSTMENT 1'']"
proof -
  let ?U = "\<lambda>r. completeRow r \<and> toLowerCase (trim (String (at r 4)))
                           \<notin> {''inactive'', ''active'', ''core''}"
  let ?run = "processRows formatMdyyyy 1775037600000 exampleStats (emptyTally exampleStats [])
           ([examplePerson ''Core''] @ examplePerson ''Retired'' # [examplePerson ''inactive''])"
  have c: "completeRow (examplePerson ''Retired'')" by code_simp
  have l: "toLowerCase (trim (String (at (examplePerson ''Retired'') 4)))
             \<notin> {''inactive'', ''active'', ''core''}" by code_simp
  have r: "rowInRange (examplePerson ''Retired'')" by code_simp
  have d: "String (at (examplePerson ''Retired'') 3) @ '' ''
             @ String (at (examplePerson ''Retired'') 2) @ '' (ID: ''
             @ String (at (examplePerson ''Retired'') 0) @ '') - Unknown Level''
           = ''Ann Lee (ID: 7) - Unknown Level''"
    by code_simp
  have u1: "filter ?U [examplePerson ''Core''] = []" by code_simp
  have u2: "filter ?U [examplePerson ''inactive''] = []" by code_simp
  have c1: "filter completeRow [examplePerson ''Core''] = [examplePerson ''Core'']" by code_simp
  have c2: "filter completeRow [examplePerson ''inactive''] = [examplePerson ''inactive'']"
    by code_simp
  have l1: "map (\<lambda>r. at r 2)
      (loggedRows formatMdyyyy 1775037600000 exampleStats (examplePerson ''Core''))
        = [Str ''BASELINE ADJUSTMENT 1'']" by code_simp
  have l2: "map (\<lambda>r. at r 2)
      (loggedRows formatMdyyyy 1775037600000 exampleStats (examplePerson ''inactive''))
        = [Str ''BASELINE ADJUSTMENT 1'']" by code_simp
  note w = C5_unknown_level_skipped [OF c l r, of exampleStats formatMdyyyy 1775037600000
      "emptyTally exampleStats []" "[examplePerson ''Core'']" "[examplePerson ''inactive'']"
      "[]" "[]" "[]"]
  from w have n: "scoreFor exampleStats (examplePerson ''Retired'') = None" by blast
  from w have "recordsSkippedOrFailed ?run =
       recordsSkippedOrFailed (emptyTally exampleStats [])
       @ map (\<lambda>r. String (at r 3) @ '' '' @ String (at r 2) @ '' (ID: '' @ String (at r 0)
                   @ '') - Unknown Level'')
           (filter ?U [examplePerson ''Core''])
       @ [String (at (examplePerson ''Retired'') 3) @ '' ''
            @ String (at (examplePerson ''Retired'') 2) @ '' (ID: ''
            @ String (at (examplePerson ''Retired'') 0) @ '') - Unknown Level'']
       @ map (\<lambda>r. String (at r 3) @ '' '' @ String (at r 2) @ '' (ID: '' @ String (at r 0)
                   @ '') - Unknown Level'')
           (filter ?U [examplePerson ''inactive''])" by blast
  then have s: "recordsSkippedOrFailed ?run = [''Ann Lee (ID: 7) - Unknown Level'']"
    unfolding u1 u2 d by (simp add: emptyTally_def)
  from w have "recordsToProcessCount ?run =
       recordsToProcessCount (emptyTally exampleStats [])
         + length (filter completeRow [examplePerson ''Core'']) + 1
         + length (filter completeRow [examplePerson ''inactive''])" by blast
  then have k: "recordsToProcessCount ?run = 3" unfolding c1 c2 by (simp add: emptyTally_def)
  from w have "eventAttendanceSheet ?run =
       eventAttendanceSheet (emptyTally exampleStats [])
         @ concat (map (loggedRows formatMdyyyy 1775037600000 exampleStats) [examplePerson ''Core''])
         @ concat (map (loggedRows formatMdyyyy 1775037600000 exampleStats)
             [examplePerson ''inactive''])" by blast
  then have "map (\<lambda>r. at r 2) (eventAttendanceSheet ?run) =
      map (\<lambda>r. at r 2) (loggedRows formatMdyyyy 1775037600000 exampleStats (examplePerson ''Core''))
      @ map (\<lambda>r. at r 2)
          (loggedRows formatMdyyyy 1775037600000 exampleStats (examplePerson ''inactive''))"
    by (simp add: emptyTally_def)
  then have e: "map (\<lambda>r. at r 2) (eventAttendanceSheet ?run)
       = [Str ''BASELINE ADJUSTMENT 1'', Str ''BASELINE ADJUSTMENT 1'']"
    unfolding l1 l2 by simp
  from c l r n s k e show ?thesis by blast
qed

text \<open>
  C6 (amended). A statistics row matches a person when the trimmed person IDs are equal
  as they are (upper and lower case distinguished) and the trimmed first names and the
  trimmed last names are equal without regard to case. Trimming removes the white space at
  both ends, and the comparison without regard to case is that of the texts with every
  capital letter, with or without accent, replaced by its small letter. The lookup takes
  the event count and the score from the first matching row. When no row matches, both are
  0 and the score of the level is computed from these, as for any other person.
\<close>

theorem C6_stats_lookup:
  assumes "sheetInRange statsData" and "rowInRange uatRow"
  shows "(\<forall>r \<in> set statsData.
            rowMatches r (at uatRow 0) (at uatRow 3) (at uatRow 2) \<longleftrightarrow>
              trim (String (at r 0)) = trim (String (at uatRow 0))
            \<and> toLowerCase (trim (String (at r 2))) = toLowerCase (trim (String (at uatRow 3)))
            \<and> toLowerCase (trim (String (at r 3))) = toLowerCase (trim (String (at uatRow 2))))
   \<and> currentStats statsData (at uatRow 0) (at uatRow 3) (at uatRow 2) =
       (case find (\<lambda>r. rowMatches r (at uatRow 0) (at uatRow 3) (at uatRow 2)) statsData of
          None \<Rightarrow> (0, 0)
        | Some r \<Rightarrow> (intOrZero (at r 4), intOrZero (at r 11)))
   \<and> ((\<forall>r \<in> set statsData. \<not> rowMatches r (at uatRow 0) (at uatRow 3) (at uatRow 2)) \<longrightarrow>
          currentStats statsData (at uatRow 0) (at uatRow 3) (at uatRow 2) = (0, 0)
        \<and> scoreFor statsData uatRow
            = newCalculatedScoreK (toLowerCase (trim (String (at uatRow 4)))) 0 0)
   \<and> ((\<forall>ch \<in> set ws. (of_char ch :: nat) \<in> {9, 10, 11, 12, 13, 32, 160})
        \<and> (\<forall>ch \<in> set ws'. (of_char ch :: nat) \<in> {9, 10, 11, 12, 13, 32, 160})
        \<and> (s = [] \<or> ((of_char (hd s) :: nat) \<notin> {9, 10, 11, 12, 13, 32, 160}
                      \<and> (of_char (last s) :: nat) \<notin> {9, 10, 11, 12, 13, 32, 160})) \<longrightarrow>
          trim (ws @ s @ ws') = s)
   \<and> toLowerCase s =
       map (\<lambda>ch. if (65 \<le> (of_char ch :: nat) \<and> (of_char ch :: nat) \<le> 90)
                    \<or> (192 \<le> (of_char ch :: nat) \<and> (of_char ch :: nat) \<le> 222
                        \<and> (of_char ch :: nat) \<noteq> 215)
                 then char_of ((of_char ch :: nat) + 32) else ch) s"
proof -
  have a: "\<forall>r \<in> set statsData.
            rowMatches r (at uatRow 0) (at uatRow 3) (at uatRow 2) \<longleftrightarrow>
              trim (String (at r 0)) = trim (String (at uatRow 0))
            \<and> toLowerCase (trim (String (at r 2))) = toLowerCase (trim (String (at uatRow 3)))
            \<and> toLowerCase (trim (String (at r 3))) = toLowerCase (trim (String (at uatRow 2)))"
    unfolding rowMatches_def stats_cols by blast
  have b: "currentStats statsData (at uatRow 0) (at uatRow 3) (at uatRow 2) =
       (case find (\<lambda>r. rowMatches r (at uatRow 0) (at uatRow 3) (at uatRow 2)) statsData of
          None \<Rightarrow> (0, 0)
        | Some r \<Rightarrow> (intOrZero (at r 4), intOrZero (at r 11)))"
    unfolding currentStats_find stats_cols by (rule refl)
  have c: "(\<forall>r \<in> set statsData. \<not> rowMatches r (at uatRow 0) (at uatRow 3) (at uatRow 2)) \<longrightarrow>
          currentStats statsData (at uatRow 0) (at uatRow 3) (at uatRow 2) = (0, 0)
        \<and> scoreFor statsData uatRow
            = newCalculatedScoreK (toLowerCase (trim (String (at uatRow 4)))) 0 0"
    using currentStats_no_match scoreFor_no_match by blast
  have d: "(\<forall>ch \<in> set ws. (of_char ch :: nat) \<in> {9, 10, 11, 12, 13, 32, 160})
        \<and> (\<forall>ch \<in> set ws'. (of_char ch :: nat) \<in> {9, 10, 11, 12, 13, 32, 160})
        \<and> (s = [] \<or> ((of_char (hd s) :: nat) \<notin> {9, 10, 11, 12, 13, 32, 160}
                      \<and> (of_char (last s) :: nat) \<notin> {9, 10, 11, 12, 13, 32, 160})) \<longrightarrow>
          trim (ws @ s @ ws') = s"
    using trim_padded [of ws ws' s] unfolding isWhiteSpace_codes by blast
  have e: "toLowerCase s =
       map (\<lambda>ch. if (65 \<le> (of_char ch :: nat) \<and> (of_char ch :: nat) \<le> 90)
                    \<or> (192 \<le> (of_char ch :: nat) \<and> (of_char ch :: nat) \<le> 222
                        \<and> (of_char ch :: nat) \<noteq> 215)
                 then char_of ((of_char ch :: nat) + 32) else ch) s"
    by (rule toLowerCase_codes)
  from a b c d e show ?thesis by blast
qed

theorem C6_stats_lookup_witness:
  "sheetInRange caseStats \<and> sheetInRange accentStats \<and> rowInRange accentPerson
   \<and> rowMatches (hd accentStats) (at accentPerson 0) (at accentPerson 3) (at accentPerson 2)
   \<and> currentStats accentStats (at accentPerson 0) (at accentPerson 3) (at accentPerson 2) = (4, 1)
   \<and> rowInRange [Str ''AB2'', Str ''Ann Lee'', Str ''Lee'', Str ''Ann'', Str ''Active'']
   \<and> currentStats caseStats (Str ''AB2'') (Str ''Ann'') (Str ''Lee'') = (0, 0)
   \<and> scoreFor caseStats [Str ''AB2'', Str ''Ann Lee'', Str ''Lee'', Str ''Ann'', Str ''Active'']
       = Some 3
   \<and> trim ('' '' @ ''Ann Lee'' @ [CHR 0xA0]) = ''Ann Lee''
   \<and> toLowerCase (''JOS'' @ [CHR 0xC9]) = ''jos'' @ [CHR 0xE9]"
proof -
  let ?u = "[Str ''AB2'', Str ''Ann Lee'', Str ''Lee'', Str ''Ann'', Str ''Active'']"
  have r1: "sheetInRange caseStats" by code_simp
  have r2: "sheetInRange accentStats" by code_simp
  have r3: "rowInRange accentPerson" by code_simp
  have r4: "rowInRange ?u" by code_simp
  have h: "hd accentStats \<in> set accentStats" by (simp add: accentStats_def)
  have m: "trim (String (at (hd accentStats) 0)) = trim (String (at accentPerson 0))
      \<and> toLowerCase (trim (String (at (hd accentStats) 2)))
          = toLowerCase (trim (String (at accentPerson 3)))
      \<and> toLowerCase (trim (String (at (hd accentStats) 3)))
          = toLowerCase (trim (String (at accentPerson 2)))" by code_simp
  note w1 = C6_stats_lookup [OF r2 r3, of "'' ''" "[CHR 0xA0]" "''Ann Lee''"]
  from w1 h m have one: "rowMatches (hd accentStats) (at accentPerson 0) (at accentPerson 3)
      (at accentPerson 2)" by blast
  have f: "find (\<lambda>r. rowMatches r (at accentPerson 0) (at accentPerson 3) (at accentPerson 2))
      accentStats = Some (hd accentStats)"
    using one by (simp add: accentStats_def)
  have v: "intOrZero (at (hd accentStats) 4) = 4" "intOrZero (at (hd accentStats) 11) = 1"
    by code_simp+
  from w1 have "currentStats accentStats (at accentPerson 0) (at accentPerson 3) (at accentPerson 2) =
       (case find (\<lambda>r. rowMatches r (at accentPerson 0) (at accentPerson 3) (at accentPerson 2))
               accentStats of
          None \<Rightarrow> (0, 0)
        | Some r \<Rightarrow> (intOrZero (at r 4), intOrZero (at r 11)))" by blast
  then have two: "currentStats accentStats (at accentPerson 0) (at accentPerson 3)
      (at accentPerson 2) = (4, 1)"
    unfolding f by (simp add: v)
  have ws: "\<forall>ch \<in> set '' ''. (of_char ch :: nat) \<in> {9, 10, 11, 12, 13, 32, 160}" by simp
  have ws': "\<forall>ch \<in> set [CHR 0xA0]. (of_char ch :: nat) \<in> {9, 10, 11, 12, 13, 32, 160}" by simp
  have s: "''Ann Lee'' = [] \<or> ((of_char (hd ''Ann Lee'') :: nat) \<notin> {9, 10, 11, 12, 13, 32, 160}
                      \<and> (of_char (last ''Ann Lee'') :: nat) \<notin> {9, 10, 11, 12, 13, 32, 160})"
    by simp
  from w1 ws ws' s have three: "trim ('' '' @ ''Ann Lee'' @ [CHR 0xA0]) = ''Ann Lee''" by blast
  note w2 = C6_stats_lookup [OF r1 r4, of "[]" "[]" "''JOS'' @ [CHR 0xC9]"]
  have u: "at ?u 0 = Str ''AB2''" "at ?u 3 = Str ''Ann''" "at ?u 2 = Str ''Lee''"
    "at ?u 4 = Str ''Active''" by (simp_all add: at_def)
  have n: "\<forall>r \<in> set caseStats. \<not> rowMatches r (at ?u 0) (at ?u 3) (at ?u 2)" by code_simp
  have k: "newCalculatedScoreK (toLowerCase (trim ''Active'')) 0 0 = Some 3" by code_simp
  from w2 n have "currentStats caseStats (at ?u 0) (at ?u 3) (at ?u 2) = (0, 0)
        \<and> scoreFor caseStats ?u = newCalculatedScoreK (toLowerCase (trim (String (at ?u 4)))) 0 0"
    by blast
  then have four: "currentStats caseStats (Str ''AB2'') (Str ''Ann'') (Str ''Lee'') = (0, 0)"
    and "scoreFor caseStats ?u = newCalculatedScoreK (toLowerCase (trim (String (Str ''Active'')))) 0 0"
    unfolding u by blast+
  then have five: "scoreFor caseStats ?u = Some 3" using k by simp
  from w2 have "toLowerCase (''JOS'' @ [CHR 0xC9]) =
       map (\<lambda>ch. if (65 \<le> (of_char ch :: nat) \<and> (of_char ch :: nat) \<le> 90)
                    \<or> (192 \<le> (of_char ch :: nat) \<and> (of_char ch :: nat) \<le> 222
                        \<and> (of_char ch :: nat) \<noteq> 215)
                 then char_of ((of_char ch :: nat) + 32) else ch) (''JOS'' @ [CHR 0xC9])" by blast
  moreover have "map (\<lambda>ch. if (65 \<le> (of_char ch :: nat) \<and> (of_char ch :: nat) \<le> 90)
                    \<or> (192 \<le> (of_char ch :: nat) \<and> (of_char ch :: nat) \<le> 222
                        \<and> (of_char ch :: nat) \<noteq> 215)
                 then char_of ((of_char ch :: nat) + 32) else ch) (''JOS'' @ [CHR 0xC9])
      = ''jos'' @ [CHR 0xE9]" by code_simp
  ultimately have six: "toLowerCase (''JOS'' @ [CHR 0xC9]) = ''jos'' @ [CHR 0xE9]"
    by (rule trans)
  from r1 r2 r3 one two r4 four five three six show ?thesis by blast
qed

text \<open>
  C6, as stated, fails: a statistics row whose person ID differs from the person's only in
  the case of its letters is not matched, and the person gets 0 and 0 in place of the 5
  and 2 of the row.
\<close>

theorem C6_person_id_case_counterexample:
  "toLowerCase (trim (String (at (hd caseStats) 0))) = toLowerCase (trim (String (Str ''ab1'')))
   \<and> toLowerCase (trim (String (at (hd caseStats) 2))) = toLowerCase (trim (String (Str ''Ann'')))
   \<and> toLowerCase (trim (String (at (hd caseStats) 3))) = toLowerCase (trim (String (Str ''Lee'')))
   \<and> intOrZero (at (hd caseStats) 4) = 5
   \<and> intOrZero (at (hd caseStats) 11) = 2
   \<and> currentStats caseStats (Str ''ab1'') (Str ''Ann'') (Str ''Lee'') = (0, 0)"
  by code_simp

text \<open>
  C7. The rows built for a person are as many as the dates, in the order of the dates. The
  row at position \<open>i\<close> (from 0) carries the label \<^verbatim>\<open>BASELINE ADJUSTMENT\<close> followed by
  \<open>i + 1\<close>, the date at position \<open>i\<close>, and the one formatted date of the run; in
  \<open>updateActivityLevels\<close> the dates are those of \<open>generateRecentDistinctDates\<close>, most
  recent first.
\<close>

theorem C7_event_rows:
  "length (buildRows pid full fnm lnm exec dates 1 []) = length dates
   \<and> (\<forall>i < length dates.
         buildRows pid full fnm lnm exec dates 1 [] ! i =
           [pid, full, Str (''BASELINE ADJUSTMENT '' @ show_nat (i + 1)), Null, fnm, lnm,
            Null, Null, Null, Null, Str (dates ! i), Null, Null, Str exec])
   \<and> rowsForEventAttendance f today uatRow newScore =
       buildRows (at uatRow 0) (at uatRow 1) (at uatRow 3) (at uatRow 2) (f today)
         (generateRecentDistinctDates f newScore today) 1 []"
proof -
  have a: "length (buildRows pid full fnm lnm exec dates 1 []) = length dates"
    by (simp add: length_buildRows)
  have b: "\<forall>i < length dates.
         buildRows pid full fnm lnm exec dates 1 [] ! i =
           [pid, full, Str (''BASELINE ADJUSTMENT '' @ show_nat (i + 1)), Null, fnm, lnm,
            Null, Null, Null, Null, Str (dates ! i), Null, Null, Str exec]"
    by (simp add: buildRows_eq newEventAttendanceRow_eq)
  have c: "rowsForEventAttendance f today uatRow newScore =
       buildRows (at uatRow 0) (at uatRow 1) (at uatRow 3) (at uatRow 2) (f today)
         (generateRecentDistinctDates f newScore today) 1 []"
    unfolding rowsForEventAttendance_def uat_cols Let_def by (rule refl)
  from a b c show ?thesis by blast
qed

theorem C7_event_rows_witness:
  "buildRows (Num 7) (Str ''Ann Lee'') (Str ''Ann'') (Str ''Lee'') ''4/4/2026''
      [''4/4/2026'', ''4/3/2026''] 1 [] ! 1
     = [Num 7, Str ''Ann Lee'', Str ''BASELINE ADJUSTMENT 2'', Null, Str ''Ann'', Str ''Lee'',
        Null, Null, Null, Null, Str ''4/3/2026'', Null, Null, Str ''4/4/2026'']
   \<and> length (buildRows (Num 7) (Str ''Ann Lee'') (Str ''Ann'') (Str ''Lee'') ''4/4/2026''
        [''4/4/2026'', ''4/3/2026''] 1 []) = 2"
proof -
  have s: "show_nat (1 + 1) = ''2''" by code_simp
  note w = C7_event_rows [of "Num 7" "Str ''Ann Lee''" "Str ''Ann''" "Str ''Lee''" "''4/4/2026''"
      "[''4/4/2026'', ''4/3/2026'']"]
  have n: "[''4/4/2026'', ''4/3/2026''] ! 1 = ''4/3/2026''" by simp
  have "(1::nat) < length [''4/4/2026'', ''4/3/2026'']" by simp
  with w have "buildRows (Num 7) (Str ''Ann Lee'') (Str ''Ann'') (Str ''Lee'') ''4/4/2026''
      [''4/4/2026'', ''4/3/2026''] 1 [] ! 1
     = [Num 7, Str ''Ann Lee'', Str (''BASELINE ADJUSTMENT '' @ show_nat (1 + 1)), Null,
        Str ''Ann'', Str ''Lee'', Null, Null, Null, Null,
        Str ([''4/4/2026'', ''4/3/2026''] ! 1), Null, Null, Str ''4/4/2026'']" by blast
  then have r: "buildRows (Num 7) (Str ''Ann Lee'') (Str ''Ann'') (Str ''Lee'') ''4/4/2026''
      [''4/4/2026'', ''4/3/2026''] 1 [] ! 1
     = [Num 7, Str ''Ann Lee'', Str (''BASELINE ADJUSTMENT '' @ ''2''), Null,
        Str ''Ann'', Str ''Lee'', Null, Null, Null, Null,
        Str ''4/3/2026'', Null, Null, Str ''4/4/2026'']" unfolding s n .
  from w have l: "length (buildRows (Num 7) (Str ''Ann Lee'') (Str ''Ann'') (Str ''Lee'')
        ''4/4/2026'' [''4/4/2026'', ''4/3/2026''] 1 []) = length [''4/4/2026'', ''4/3/2026'']"
    by blast
  have a: "''BASELINE ADJUSTMENT '' @ ''2'' = ''BASELINE ADJUSTMENT 2''" by simp
  have b: "length [''4/4/2026'', ''4/3/2026''] = 2" by simp
  from r l show ?thesis unfolding a b by (rule conjI)
qed

text \<open>
  C8. A cell counts as 0 when no decimal integer can be read from it: when its text, after
  the white space at its start and one sign \<^verbatim>\<open>+\<close> or \<^verbatim>\<open>-\<close>, is empty or does not begin
  with a digit. A whole number that JavaScript holds exactly (up to \<open>2\<^sup>5\<^sup>3 - 1\<close> in
  absolute value), also a negative one, is taken as it is, and so is its decimal text, with
  white space before it, a sign \<^verbatim>\<open>+\<close> before it, or other text after it. The values read
  from the first matching row enter the computation for the level \<^verbatim>\<open>active\<close> unchanged,
  also when negative: only the sum is clamped between 3 and 11, and the difference is
  floored at 0.
\<close>

theorem C8_unparsable_is_zero:
  "((let S = dropWhile (\<lambda>ch. (of_char ch :: nat) \<in> {9, 10, 11, 12, 13, 32, 160}) (String c);
         S' = (if S \<noteq> [] \<and> (hd S = CHR ''+'' \<or> hd S = CHR ''-'') then tl S else S)
     in S' = [] \<or> \<not> (48 \<le> (of_char (hd S') :: nat) \<and> (of_char (hd S') :: nat) \<le> 57))
      \<longrightarrow> intOrZero c = 0)
   \<and> (safeInteger n \<longrightarrow> intOrZero (Num n) = n)
   \<and> (safeInteger n \<and> (\<forall>ch \<in> set ws. (of_char ch :: nat) \<in> {9, 10, 11, 12, 13, 32, 160})
        \<and> (rest = [] \<or> \<not> (48 \<le> (of_char (hd rest) :: nat) \<and> (of_char (hd rest) :: nat) \<le> 57))
      \<longrightarrow> intOrZero (Str (ws @ show_int n @ rest)) = n
        \<and> (0 \<le> n \<longrightarrow> intOrZero (Str (ws @ ''+'' @ show_int n @ rest)) = n))
   \<and> (rowInRange r \<and> rowInRange uatRow
        \<and> rowMatches r (at uatRow 0) (at uatRow 3) (at uatRow 2) \<longrightarrow>
        currentStats (r # others) (at uatRow 0) (at uatRow 3) (at uatRow 2)
          = (intOrZero (at r 4), intOrZero (at r 11)))
   \<and> (rowInRange r \<and> rowInRange uatRow
        \<and> rowMatches r (at uatRow 0) (at uatRow 3) (at uatRow 2)
        \<and> at r 4 = Num e \<and> at r 11 = Num k \<and> \<bar>e\<bar> + \<bar>k\<bar> + 3 \<le> 9007199254740991
        \<and> toLowerCase (trim (String (at uatRow 4))) = ''active'' \<longrightarrow>
        scoreFor (r # others) uatRow = Some (max 0 (min 11 (max 3 (e + (k + 3))) - e)))"
proof -
  have a: "(let S = dropWhile (\<lambda>ch. (of_char ch :: nat) \<in> {9, 10, 11, 12, 13, 32, 160}) (String c);
         S' = (if S \<noteq> [] \<and> (hd S = CHR ''+'' \<or> hd S = CHR ''-'') then tl S else S)
     in S' = [] \<or> \<not> (48 \<le> (of_char (hd S') :: nat) \<and> (of_char (hd S') :: nat) \<le> 57))
      \<longrightarrow> intOrZero c = 0"
    unfolding parseInt10_None_codes [symmetric] by (simp add: intOrZero_def orZero_def)
  have b: "safeInteger n \<longrightarrow> intOrZero (Num n) = n" by (simp add: intOrZero_Num)
  have c: "safeInteger n \<and> (\<forall>ch \<in> set ws. (of_char ch :: nat) \<in> {9, 10, 11, 12, 13, 32, 160})
        \<and> (rest = [] \<or> \<not> (48 \<le> (of_char (hd rest) :: nat) \<and> (of_char (hd rest) :: nat) \<le> 57))
      \<longrightarrow> intOrZero (Str (ws @ show_int n @ rest)) = n
        \<and> (0 \<le> n \<longrightarrow> intOrZero (Str (ws @ ''+'' @ show_int n @ rest)) = n)"
  proof
    assume h: "safeInteger n \<and> (\<forall>ch \<in> set ws. (of_char ch :: nat) \<in> {9, 10, 11, 12, 13, 32, 160})
        \<and> (rest = [] \<or> \<not> (48 \<le> (of_char (hd rest) :: nat) \<and> (of_char (hd rest) :: nat) \<le> 57))"
    then have w: "\<forall>ch \<in> set ws. isWhiteSpace ch" unfolding isWhiteSpace_codes by blast
    from h have r: "rest = [] \<or> \<not> isDigit (hd rest)" unfolding isDigit_codes by blast
    have 1: "intOrZero (Str (ws @ show_int n @ rest)) = n"
      using parseInt10_padded [OF w r, of n] by (simp add: intOrZero_def orZero_def)
    have 2: "0 \<le> n \<longrightarrow> intOrZero (Str (ws @ ''+'' @ show_int n @ rest)) = n"
    proof
      assume n: "0 \<le> n"
      have "parseInt10 (ws @ CHR ''+'' # show_nat (nat n) @ rest) = Some (int (nat n))"
        using w r by (rule parseInt10_plus)
      then show "intOrZero (Str (ws @ ''+'' @ show_int n @ rest)) = n"
        using n by (simp add: intOrZero_def orZero_def show_int_nonneg)
    qed
    from 1 2 show "intOrZero (Str (ws @ show_int n @ rest)) = n
        \<and> (0 \<le> n \<longrightarrow> intOrZero (Str (ws @ ''+'' @ show_int n @ rest)) = n)" by blast
  qed
  have d: "rowInRange r \<and> rowInRange uatRow
        \<and> rowMatches r (at uatRow 0) (at uatRow 3) (at uatRow 2) \<longrightarrow>
        currentStats (r # others) (at uatRow 0) (at uatRow 3) (at uatRow 2)
          = (intOrZero (at r 4), intOrZero (at r 11))"
    using currentStats_matched by blast
  have e: "rowInRange r \<and> rowInRange uatRow
        \<and> rowMatches r (at uatRow 0) (at uatRow 3) (at uatRow 2)
        \<and> at r 4 = Num e \<and> at r 11 = Num k \<and> \<bar>e\<bar> + \<bar>k\<bar> + 3 \<le> 9007199254740991
        \<and> toLowerCase (trim (String (at uatRow 4))) = ''active'' \<longrightarrow>
        scoreFor (r # others) uatRow = Some (max 0 (min 11 (max 3 (e + (k + 3))) - e))"
  proof
    assume h: "rowInRange r \<and> rowInRange uatRow
        \<and> rowMatches r (at uatRow 0) (at uatRow 3) (at uatRow 2)
        \<and> at r 4 = Num e \<and> at r 11 = Num k \<and> \<bar>e\<bar> + \<bar>k\<bar> + 3 \<le> 9007199254740991
        \<and> toLowerCase (trim (String (at uatRow 4))) = ''active''"
    then have m: "rowMatches r (at uatRow 0) (at uatRow 3) (at uatRow 2)"
      and v: "intOrZero (at r 4) = e" "intOrZero (at r 11) = k"
      by (simp_all add: intOrZero_Num)
    have "currentStats (r # others) (at uatRow 0) (at uatRow 3) (at uatRow 2) = (e, k)"
      using currentStats_matched [OF m, of others] unfolding v .
    with h show "scoreFor (r # others) uatRow = Some (max 0 (min 11 (max 3 (e + (k + 3))) - e))"
      unfolding scoreFor_def uat_cols Let_def
      by (simp add: newCalculatedScoreK_def activeScore_eq)
  qed
  from a b c d e show ?thesis by blast
qed

theorem C8_unparsable_is_zero_witness:
  "intOrZero (Str ''n/a'') = 0
   \<and> safeInteger (- 5) \<and> intOrZero (Num (- 5)) = - 5
   \<and> intOrZero (Str ([CHR 0xA0] @ ''-5'' @ '' events'')) = - 5
   \<and> rowInRange negativeStats \<and> rowInRange (examplePerson ''Active'')
   \<and> currentStats [negativeStats] (at (examplePerson ''Active'') 0)
       (at (examplePerson ''Active'') 3) (at (examplePerson ''Active'') 2) = (- 5, - 2)
   \<and> scoreFor [negativeStats] (examplePerson ''Active'') = Some 8"
proof -
  have p: "(let S = dropWhile (\<lambda>ch. (of_char ch :: nat) \<in> {9, 10, 11, 12, 13, 32, 160})
                 (String (Str ''n/a''));
         S' = (if S \<noteq> [] \<and> (hd S = CHR ''+'' \<or> hd S = CHR ''-'') then tl S else S)
     in S' = [] \<or> \<not> (48 \<le> (of_char (hd S') :: nat) \<and> (of_char (hd S') :: nat) \<le> 57))"
    by simp
  have sf: "safeInteger (- 5)" by code_simp
  have si: "show_int (- 5) = ''-5''" by code_simp
  have ws: "\<forall>ch \<in> set [CHR 0xA0]. (of_char ch :: nat) \<in> {9, 10, 11, 12, 13, 32, 160}" by simp
  have rs: "'' events'' = [] \<or> \<not> (48 \<le> (of_char (hd '' events'') :: nat)
      \<and> (of_char (hd '' events'') :: nat) \<le> 57)" by simp
  have r1: "rowInRange negativeStats" by code_simp
  have r2: "rowInRange (examplePerson ''Active'')" by code_simp
  have m: "rowMatches negativeStats (at (examplePerson ''Active'') 0)
             (at (examplePerson ''Active'') 3) (at (examplePerson ''Active'') 2)" by code_simp
  have c: "at negativeStats 4 = Num (- 5)" "at negativeStats 11 = Num (- 2)"
    by (simp_all add: negativeStats_def at_def)
  have b: "\<bar>- 5\<bar> + \<bar>- 2\<bar> + 3 \<le> (9007199254740991 :: int)" by simp
  have l: "toLowerCase (trim (String (at (examplePerson ''Active'') 4))) = ''active''" by code_simp
  have v: "intOrZero (at negativeStats 4) = - 5" "intOrZero (at negativeStats 11) = - 2"
    by code_simp+
  note w = C8_unparsable_is_zero [of "Str ''n/a''" "- 5" "[CHR 0xA0]" "'' events''" negativeStats
      "examplePerson ''Active''" "[]" "- 5" "- 2"]
  from w p have z: "intOrZero (Str ''n/a'') = 0" by blast
  from w sf have n: "intOrZero (Num (- 5)) = - 5" by blast
  from w sf ws rs have "intOrZero (Str ([CHR 0xA0] @ show_int (- 5) @ '' events'')) = - 5" by blast
  then have t: "intOrZero (Str ([CHR 0xA0] @ ''-5'' @ '' events'')) = - 5" unfolding si .
  from w r1 r2 m have "currentStats [negativeStats] (at (examplePerson ''Active'') 0)
       (at (examplePerson ''Active'') 3) (at (examplePerson ''Active'') 2)
       = (intOrZero (at negativeStats 4), intOrZero (at negativeStats 11))" by blast
  then have cs: "currentStats [negativeStats] (at (examplePerson ''Active'') 0)
       (at (examplePerson ''Active'') 3) (at (examplePerson ''Active'') 2) = (- 5, - 2)"
    unfolding v .
  from w r1 r2 m c b l have "scoreFor [negativeStats] (examplePerson ''Active'')
      = Some (max 0 (min 11 (max 3 (- 5 + (- 2 + 3))) - (- 5)))" by blast
  then have s: "scoreFor [negativeStats] (examplePerson ''Active'') = Some 8" by simp
  from z sf n t r1 r2 cs s show ?thesis by blast
qed

text \<open>
  C9. A run leaves the Attendance Stats tab as it was, in the loop over the tracker rows and
  in the function as a whole. The Event Attendance tab only grows at its end: the rows it
  had (or the header row, when the run creates the tab) stay in front.
\<close>

theorem C9_stats_unchanged:
  "attendanceStatsTab (fst (updateActivityLevels f today uatData ss)) = attendanceStatsTab ss
   \<and> statsSheet (processRows f today statsData st uatData) = statsSheet st
   \<and> (\<exists>rows. eventAttendanceSheet (processRows f today statsData st uatData)
               = eventAttendanceSheet st @ rows)
   \<and> (case eventAttendanceTab ss of
         Some old \<Rightarrow>
           (\<exists>rows. eventAttendanceTab (fst (updateActivityLevels f today uatData ss))
                     = Some (old @ rows))
       | None \<Rightarrow>
           eventAttendanceTab (fst (updateActivityLevels f today uatData ss)) = None
           \<or> (\<exists>rows. eventAttendanceTab (fst (updateActivityLevels f today uatData ss))
                       = Some (eventAttendanceHeader # rows)))"
proof -
  have a: "attendanceStatsTab (fst (updateActivityLevels f today uatData ss)) = attendanceStatsTab ss"
    by (auto simp: updateActivityLevels_def Let_def processRows_statsSheet
        split: option.splits prod.splits)
  have b: "statsSheet (processRows f today statsData st uatData) = statsSheet st"
    by (rule processRows_statsSheet)
  have c: "\<exists>rows. eventAttendanceSheet (processRows f today statsData st uatData)
               = eventAttendanceSheet st @ rows"
    by (simp add: processRows_sheet)
  have d: "case eventAttendanceTab ss of
         Some old \<Rightarrow>
           (\<exists>rows. eventAttendanceTab (fst (updateActivityLevels f today uatData ss))
                     = Some (old @ rows))
       | None \<Rightarrow>
           eventAttendanceTab (fst (updateActivityLevels f today uatData ss)) = None
           \<or> (\<exists>rows. eventAttendanceTab (fst (updateActivityLevels f today uatData ss))
                       = Some (eventAttendanceHeader # rows))"
    by (auto simp: updateActivityLevels_def Let_def processRows_sheet
        split: option.splits prod.splits)
  from a b c d show ?thesis by blast
qed

text \<open>
  C10. For \<open>N > 0\<close> and a reference date that is the time of a run (in a year that is not
  one of 0 to 99), the result is not empty and its first element is the formatted
  reference date: the date handed to the formatter first is the reference date itself. The
  quarter start is day 1 of the first month of the reference date's quarter in the
  reference date's year, so the reference date, the first candidate of the walk, is not
  before it.
\<close>

theorem C10_first_is_reference:
  assumes "0 < N" and "fullYearDate t"
  shows "generateRecentDistinctDates f N t \<noteq> []
       \<and> hd (generateRecentDistinctDates f N t) = f t
       \<and> hd (generateRecentDistinctDates (\<lambda>d. d) N t) = t
       \<and> setDate t (getDate t - 0) = t
       \<and> \<not> t < quarterStartDate t
       \<and> quarterStartDate t = MakeDate (MakeDay (getFullYear t) (3 * (getMonth t div 3)) 1) 0
       \<and> getFullYear (quarterStartDate t) = getFullYear t
       \<and> getMonth (quarterStartDate t) = 3 * (getMonth t div 3)
       \<and> getDate (quarterStartDate t) = 1
       \<and> TimeWithinDay (quarterStartDate t) = 0"
proof -
  have q: "quarterStartDate t = calendarQuarterStart t"
    using assms(2) by (rule quarterStart_calendar)
  have "1 \<le> daysIntoQuarter t" using assms(2) by (rule daysIntoQuarter_pos)
  with assms(1) have "0 < nat (min N (daysIntoQuarter t))" by simp
  then have u: "[0 ..< nat (min N (daysIntoQuarter t))] = 0 # [1 ..< nat (min N (daysIntoQuarter t))]"
    by (simp add: upt_conv_Cons)
  have a: "generateRecentDistinctDates h N t =
      h t # map (\<lambda>j. h (t - int j * msPerDay)) [1 ..< nat (min N (daysIntoQuarter t))]" for h :: "jsdate \<Rightarrow> 'b"
    using u by (simp add: generate_eq [OF assms(2)])
  have b: "generateRecentDistinctDates f N t \<noteq> []" "hd (generateRecentDistinctDates f N t) = f t"
    using a [of f] by simp_all
  have c: "hd (generateRecentDistinctDates (\<lambda>d. d) N t) = t" using a [of "\<lambda>d. d"] by simp
  have d: "setDate t (getDate t - 0) = t" using setDate_back [of t 0] by simp
  have e: "\<not> t < quarterStartDate t"
    unfolding q using calendarQuarterStart_fields(5) [OF assms(2)] by simp
  have j: "quarterStartDate t = MakeDate (MakeDay (getFullYear t) (3 * (getMonth t div 3)) 1) 0"
    unfolding q by (simp add: calendarQuarterStart_def getFullYear_def getMonth_def)
  have k: "getFullYear (quarterStartDate t) = getFullYear t"
    "getMonth (quarterStartDate t) = 3 * (getMonth t div 3)"
    "getDate (quarterStartDate t) = 1" "TimeWithinDay (quarterStartDate t) = 0"
    unfolding q using calendarQuarterStart_fields [OF assms(2)] by blast+
  from b c d e j k show ?thesis by blast
qed

theorem C10_first_is_reference_witness:
  "(0::int) < 12 \<and> fullYearDate 1775037600000
   \<and> generateRecentDistinctDates formatMdyyyy 12 1775037600000 \<noteq> []
   \<and> hd (generateRecentDistinctDates formatMdyyyy 12 1775037600000) = ''4/1/2026''
   \<and> hd (generateRecentDistinctDates (\<lambda>d. d) 12 1775037600000) = 1775037600000
   \<and> getMonth (quarterStartDate 1775037600000) = 3"
proof -
  have n: "(0::int) < 12" by simp
  have fy: "fullYearDate 1775037600000" by code_simp
  have m: "getMonth 1775037600000 = 3" by code_simp
  have f: "formatMdyyyy 1775037600000 = ''4/1/2026''" by code_simp
  note w = C10_first_is_reference [OF n fy, of formatMdyyyy]
  from w have a: "generateRecentDistinctDates formatMdyyyy 12 1775037600000 \<noteq> []" by blast
  from w have "hd (generateRecentDistinctDates formatMdyyyy 12 1775037600000)
      = formatMdyyyy 1775037600000" by blast
  then have b: "hd (generateRecentDistinctDates formatMdyyyy 12 1775037600000) = ''4/1/2026''"
    unfolding f .
  from w have c: "hd (generateRecentDistinctDates (\<lambda>d. d) 12 1775037600000) = 1775037600000"
    by blast
  from w have "getMonth (quarterStartDate 1775037600000) = 3 * (getMonth 1775037600000 div 3)"
    by blast
  then have d: "getMonth (quarterStartDate 1775037600000) = 3" unfolding m by simp
  from n fy a b c d show ?thesis by blast
qed

end
